theory Spec2Isabelle
  imports Main "HOL-Library.AList"
begin

section \<open>Values and errors\<close>

text \<open>
  The task model of \<^verbatim>\<open>goemon/api.py\<close> keeps everything in Python dictionaries, lists and
  scalars, as they come out of \<^verbatim>\<open>yaml.load\<close> and the JSON of the server. A value is a
  \<open>pyval\<close>. A dictionary is an association list in insertion order; its keys are strings.
  \<open>PFloat\<close> stands for a float (mantissa and exponent); only its being a float matters here.
\<close>

datatype pyval =
    PNone
  | PBool bool
  | PInt int
  | PFloat int int
  | PStr string
  | PList "pyval list"
  | PTuple "pyval list"
  | PDict "(string \<times> pyval) list"

text \<open>The exceptions the model can raise. \<open>IndexError\<close> and \<open>KeyError\<close> are the two
  subclasses of Python's \<open>LookupError\<close>.\<close>

datatype error = ValueError | TypeError | KeyError | IndexError | AttributeError | OSError

definition is_LookupError :: "error \<Rightarrow> bool" where
  "is_LookupError e = (e = KeyError \<or> e = IndexError)"

definition PROPERTIES :: "string list" where
  "PROPERTIES = [''meta'', ''description'', ''script'', ''param'', ''paramschema'']"

definition META_BOOLEAN_PROPERTIES :: "string list" where
  "META_BOOLEAN_PROPERTIES = [''public'', ''importable'', ''distributable'']"

definition META_STRING_OR_NONE_PROPERTIES :: "string list" where
  "META_STRING_OR_NONE_PROPERTIES = [''creatorLogType'', ''authorLogType'']"

definition META_STRING_OR_EMPTY_PROPERTIES :: "string list" where
  "META_STRING_OR_EMPTY_PROPERTIES = [''title'']"

section \<open>Python operations on values\<close>

text \<open>\<^verbatim>\<open>d.get(k, default)\<close> on a dictionary held by the task.\<close>

definition dict_get :: "(string \<times> pyval) list \<Rightarrow> string \<Rightarrow> pyval \<Rightarrow> pyval" where
  "dict_get d k dflt = (case map_of d k of None \<Rightarrow> dflt | Some v \<Rightarrow> v)"

text \<open>\<^verbatim>\<open>v.get(k, default)\<close> on a loaded value: only a dictionary has the method.\<close>

fun py_get :: "pyval \<Rightarrow> string \<Rightarrow> pyval \<Rightarrow> error + pyval" where
  "py_get (PDict d) k dflt = Inr (dict_get d k dflt)"
| "py_get _ k dflt = Inl AttributeError"

text \<open>\<^verbatim>\<open>a.update(b)\<close>: every key of \<open>b\<close>, in order, is assigned in \<open>a\<close>.\<close>

definition dict_update :: "(string \<times> pyval) list \<Rightarrow> (string \<times> pyval) list \<Rightarrow> (string \<times> pyval) list" where
  "dict_update a b = fold (\<lambda>(k, v). AList.update k v) b a"

fun starts_with :: "string \<Rightarrow> string \<Rightarrow> bool" where
  "starts_with [] ys = True"
| "starts_with (x # xs) [] = False"
| "starts_with (x # xs) (y # ys) = (x = y \<and> starts_with xs ys)"

fun str_contains :: "string \<Rightarrow> string \<Rightarrow> bool" where
  "str_contains s [] = starts_with s []"
| "str_contains s (c # cs) = (starts_with s (c # cs) \<or> str_contains s cs)"

text \<open>\<^verbatim>\<open>k in v\<close> for a string \<open>k\<close>: key membership in a dictionary, element membership in a
  list or tuple, substring test in a string, \<open>TypeError\<close> for a value that is not iterable.\<close>

fun py_in :: "string \<Rightarrow> pyval \<Rightarrow> error + bool" where
  "py_in k (PDict d) = Inr (map_of d k \<noteq> None)"
| "py_in k (PList xs) = Inr (PStr k \<in> set xs)"
| "py_in k (PTuple xs) = Inr (PStr k \<in> set xs)"
| "py_in k (PStr s) = Inr (str_contains k s)"
| "py_in k _ = Inl TypeError"

text \<open>\<^verbatim>\<open>v[k]\<close> for a string \<open>k\<close>: only a dictionary can be subscripted by a string.\<close>

fun py_getitem :: "pyval \<Rightarrow> string \<Rightarrow> error + pyval" where
  "py_getitem (PDict d) k = (case map_of d k of None \<Rightarrow> Inl KeyError | Some v \<Rightarrow> Inr v)"
| "py_getitem _ k = Inl TypeError"

text \<open>\<^verbatim>\<open>for x in v\<close>: a dictionary yields its keys, a string its characters.\<close>

fun py_iter :: "pyval \<Rightarrow> error + pyval list" where
  "py_iter (PList xs) = Inr xs"
| "py_iter (PTuple xs) = Inr xs"
| "py_iter (PDict d) = Inr (map (\<lambda>(k, v). PStr k) d)"
| "py_iter (PStr s) = Inr (map (\<lambda>c. PStr [c]) s)"
| "py_iter _ = Inl TypeError"

fun is_str :: "pyval \<Rightarrow> bool" where
  "is_str (PStr s) = True"
| "is_str _ = False"

fun is_bool :: "pyval \<Rightarrow> bool" where
  "is_bool (PBool b) = True"
| "is_bool _ = False"

text \<open>\<^verbatim>\<open>isinstance(v, int)\<close>: in Python \<open>bool\<close> is a subclass of \<open>int\<close>.\<close>

fun is_int :: "pyval \<Rightarrow> bool" where
  "is_int (PInt i) = True"
| "is_int (PBool b) = True"
| "is_int _ = False"

section \<open>Validation\<close>

text \<open>
  Every rule of the validators has the same shape:
  \<^verbatim>\<open>if key not in elem: raise ValueError; value = elem[key]; if not ok(value): raise ValueError\<close>.
\<close>

definition check_key :: "string \<Rightarrow> (pyval \<Rightarrow> bool) \<Rightarrow> pyval \<Rightarrow> error + unit" where
  "check_key key ok elem =
     (case py_in key elem of
        Inl e \<Rightarrow> Inl e
      | Inr False \<Rightarrow> Inl ValueError
      | Inr True \<Rightarrow>
          (case py_getitem elem key of
             Inl e \<Rightarrow> Inl e
           | Inr v \<Rightarrow> if ok v then Inr () else Inl ValueError))"

fun check_all :: "(error + unit) list \<Rightarrow> error + unit" where
  "check_all [] = Inr ()"
| "check_all (Inl e # cs) = Inl e"
| "check_all (Inr u # cs) = check_all cs"

definition validate_file :: "pyval \<Rightarrow> error + unit" where
  "validate_file file = check_all
     [check_key ''name'' is_str file,
      check_key ''type'' is_str file,
      check_key ''importType'' is_str file,
      check_key ''preload'' is_bool file,
      check_key ''priority'' is_int file]"

definition validate_param_field :: "pyval \<Rightarrow> error + unit" where
  "validate_param_field elem = check_all
     [check_key ''name'' is_str elem,
      check_key ''value'' is_str elem]"

definition paramschema_types :: "string list" where
  "paramschema_types = [''string'', ''integer'', ''number'', ''file'', ''boolean'', ''url'']"

definition validate_paramschema_field :: "pyval \<Rightarrow> error + unit" where
  "validate_paramschema_field elem = check_all
     [check_key ''name'' is_str elem,
      check_key ''type'' (\<lambda>elemtype. elemtype \<in> PStr ` set paramschema_types) elem]"

text \<open>The loop \<^verbatim>\<open>for p in param: validate(p)\<close> stops at the first element that raises.\<close>

fun validate_each :: "(pyval \<Rightarrow> error + unit) \<Rightarrow> pyval list \<Rightarrow> error + unit" where
  "validate_each f [] = Inr ()"
| "validate_each f (p # ps) = (case f p of Inl e \<Rightarrow> Inl e | Inr u \<Rightarrow> validate_each f ps)"

fun validate_param :: "pyval \<Rightarrow> error + unit" where
  "validate_param PNone = Inr ()"
| "validate_param (PList ps) = validate_each validate_param_field ps"
| "validate_param _ = Inl ValueError"

fun validate_paramschema :: "pyval \<Rightarrow> error + unit" where
  "validate_paramschema PNone = Inr ()"
| "validate_paramschema (PList ps) = validate_each validate_paramschema_field ps"
| "validate_paramschema _ = Inl ValueError"

section \<open>The task\<close>

text \<open>
  \<open>obj\<close> is the attribute dictionary of the task, \<open>changed\<close> the dictionary of dirty markers.
  A setter returns its outcome together with the task as it is left: when it raises, the
  task holds whatever had been assigned before the exception.
  The setters are modelled from the value that \<^verbatim>\<open>yaml.load\<close> returns; the scratch
  directory and the download of the files are network and file effects that no setter reads.
\<close>

record task =
  obj :: "(string \<times> pyval) list"
  changed :: "(string \<times> bool) list"

definition Task_init :: "(string \<times> pyval) list \<Rightarrow> task" where
  "Task_init ob = \<lparr>obj = ob, changed = []\<rparr>"

text \<open>\<^verbatim>\<open>self.changed.get(prop, False)\<close>\<close>

definition is_changed :: "task \<Rightarrow> string \<Rightarrow> bool" where
  "is_changed t prop = (case map_of (changed t) prop of None \<Rightarrow> False | Some b \<Rightarrow> b)"

definition assign :: "string \<Rightarrow> pyval \<Rightarrow> task \<Rightarrow> task" where
  "assign k v t = t\<lparr>obj := AList.update k v (obj t), changed := AList.update k True (changed t)\<rparr>"

subsection \<open>meta\<close>


fun meta_assign :: "pyval \<Rightarrow> pyval \<Rightarrow> string list \<Rightarrow> task \<Rightarrow> (error + unit) \<times> task" where
  "meta_assign v dflt [] t = (Inr (), t)"
| "meta_assign v dflt (key # keys) t =
     (case py_get v key dflt of
        Inl e \<Rightarrow> (Inl e, t)
      | Inr x \<Rightarrow> meta_assign v dflt keys (assign key x t))"

definition meta_setter :: "pyval \<Rightarrow> task \<Rightarrow> (error + unit) \<times> task" where
  "meta_setter v t =
     (case meta_assign v (PBool False) META_BOOLEAN_PROPERTIES t of
        (Inl e, t1) \<Rightarrow> (Inl e, t1)
      | (Inr u, t1) \<Rightarrow>
          (case meta_assign v (PStr ''none'') META_STRING_OR_NONE_PROPERTIES t1 of
             (Inl e, t2) \<Rightarrow> (Inl e, t2)
           | (Inr u, t2) \<Rightarrow> meta_assign v (PStr []) META_STRING_OR_EMPTY_PROPERTIES t2))"

subsection \<open>description, script, param, paramschema\<close>

definition description_setter :: "pyval \<Rightarrow> task \<Rightarrow> (error + unit) \<times> task" where
  "description_setter v t = (Inr (), assign ''description'' v t)"

definition script_setter :: "pyval \<Rightarrow> task \<Rightarrow> (error + unit) \<times> task" where
  "script_setter v t = (Inr (), assign ''script'' v t)"

definition param_setter :: "pyval \<Rightarrow> task \<Rightarrow> (error + unit) \<times> task" where
  "param_setter v t =
     (case validate_param v of
        Inl e \<Rightarrow> (Inl e, t)
      | Inr u \<Rightarrow> (Inr (), assign ''param'' v t))"

definition paramschema_setter :: "pyval \<Rightarrow> task \<Rightarrow> (error + unit) \<times> task" where
  "paramschema_setter v t =
     (case validate_paramschema v of
        Inl e \<Rightarrow> (Inl e, t)
      | Inr u \<Rightarrow> (Inr (), assign ''paramschema'' v t))"

subsection \<open>files\<close>

text \<open>
  The local files: a path gives the bytes that \<^verbatim>\<open>open(path, 'rb').read()\<close> returns, the
  result of \<^verbatim>\<open>os.path.getsize\<close> and the result of
  \<^verbatim>\<open>int(os.path.getmtime(path) * 1000)\<close>; a path that cannot be opened gives \<open>None\<close>.
  The digest \<^verbatim>\<open>hashlib.sha256(bytes).hexdigest()\<close> is the parameter \<open>H\<close>.
\<close>

record local_file =
  content :: string
  getsize :: int
  getmtime_ms :: int

type_synonym filesystem = "string \<Rightarrow> local_file option"

text \<open>\<^verbatim>\<open>os.path.join(d, f)\<close> of \<^verbatim>\<open>posixpath\<close>\<close>

definition path_join :: "string \<Rightarrow> string \<Rightarrow> string" where
  "path_join d f =
     (if starts_with ''/'' f then f
      else if d = [] \<or> last d = CHR ''/'' then d @ f
      else d @ ''/'' @ f)"

text \<open>\<^verbatim>\<open>[os.path.join(d, f) for d, f in files_path if f == name]\<close>\<close>

definition locate :: "(string \<times> string) list \<Rightarrow> pyval \<Rightarrow> string list" where
  "locate files_path name = [path_join d f. (d, f) \<leftarrow> files_path, PStr f = name]"

text \<open>The condition of the comprehension that selects the old entries: the name is compared
  first, and the digest only when the name is equal.\<close>

definition old_matches :: "pyval \<Rightarrow> string \<Rightarrow> pyval \<Rightarrow> error + bool" where
  "old_matches name hash f =
     (case py_getitem f ''data'' of Inl e \<Rightarrow> Inl e | Inr d \<Rightarrow>
      (case py_getitem d ''attributes'' of Inl e \<Rightarrow> Inl e | Inr a \<Rightarrow>
       (case py_getitem a ''name'' of Inl e \<Rightarrow> Inl e | Inr n \<Rightarrow>
        if n \<noteq> name then Inr False
        else (case py_getitem a ''hashSHA256'' of Inl e \<Rightarrow> Inl e | Inr h \<Rightarrow>
              Inr (h = PStr hash)))))"

fun filter_err :: "('a \<Rightarrow> error + bool) \<Rightarrow> 'a list \<Rightarrow> error + 'a list" where
  "filter_err p [] = Inr []"
| "filter_err p (x # xs) =
     (case p x of
        Inl e \<Rightarrow> Inl e
      | Inr b \<Rightarrow>
          (case filter_err p xs of
             Inl e \<Rightarrow> Inl e
           | Inr ys \<Rightarrow> Inr (if b then x # ys else ys)))"

definition oldfiles_matched :: "pyval \<Rightarrow> pyval \<Rightarrow> string \<Rightarrow> error + pyval list" where
  "oldfiles_matched oldfiles name hash =
     (case py_iter oldfiles of
        Inl e \<Rightarrow> Inl e
      | Inr fs \<Rightarrow> filter_err (old_matches name hash) fs)"

text \<open>\<^verbatim>\<open>newfile = copy.deepcopy(old); newfile['data']['attributes'].update(file)\<close>\<close>

definition overlay :: "pyval \<Rightarrow> pyval \<Rightarrow> error + pyval" where
  "overlay old file =
     (case (old, file) of
        (PDict md, PDict fd) \<Rightarrow>
          (case map_of md ''data'' of
             Some (PDict dd) \<Rightarrow>
               (case map_of dd ''attributes'' of
                  Some (PDict ad) \<Rightarrow>
                    Inr (PDict (AList.update ''data''
                           (PDict (AList.update ''attributes'' (PDict (dict_update ad fd)) dd)) md))
                | Some _ \<Rightarrow> Inl AttributeError
                | None \<Rightarrow> Inl KeyError)
           | Some _ \<Rightarrow> Inl TypeError
           | None \<Rightarrow> Inl KeyError)
      | _ \<Rightarrow> Inl TypeError)"

text \<open>The entry built for a new file.\<close>

definition mint :: "string \<Rightarrow> local_file \<Rightarrow> (string \<times> pyval) list \<Rightarrow> pyval" where
  "mint hash lf fd =
     PDict [(''type'', PStr ''files''),
            (''data'', PDict [(''attributes'',
               PDict (dict_update
                 [(''hashSHA256'', PStr hash),
                  (''size'', PInt (getsize lf)),
                  (''lastModified'', PInt (getmtime_ms lf))] fd))])]"

text \<open>One turn of the loop of the setter: the entry appended to \<open>newfiles\<close> and the tuples
  appended to \<open>newdata_files\<close> (none or one).\<close>

definition files_step ::
  "(string \<Rightarrow> string) \<Rightarrow> filesystem \<Rightarrow> pyval \<Rightarrow> (string \<times> string) list \<Rightarrow> pyval
    \<Rightarrow> error + (pyval \<times> pyval list)" where
  "files_step H fs oldfiles files_path file =
     (case validate_file file of Inl e \<Rightarrow> Inl e | Inr u \<Rightarrow>
      (case py_getitem file ''name'' of Inl e \<Rightarrow> Inl e | Inr name \<Rightarrow>
       (case locate files_path name of [] \<Rightarrow> Inl IndexError | filepath # rest \<Rightarrow>
        (case fs filepath of None \<Rightarrow> Inl OSError | Some lf \<Rightarrow>
         (let hash = H (content lf) in
          (case oldfiles_matched oldfiles name hash of Inl e \<Rightarrow> Inl e
           | Inr (old # others) \<Rightarrow>
               (case overlay old file of Inl e \<Rightarrow> Inl e | Inr newfile \<Rightarrow> Inr (newfile, []))
           | Inr [] \<Rightarrow>
               (case file of
                  PDict fd \<Rightarrow>
                    Inr (mint hash lf fd, [PTuple [name, PStr hash, PStr filepath]])
                | _ \<Rightarrow> Inl TypeError)))))))"

fun files_loop ::
  "(string \<Rightarrow> string) \<Rightarrow> filesystem \<Rightarrow> pyval \<Rightarrow> (string \<times> string) list \<Rightarrow> pyval list
    \<Rightarrow> pyval list \<Rightarrow> pyval list \<Rightarrow> error + (pyval list \<times> pyval list)" where
  "files_loop H fs oldfiles files_path [] newfiles newdata_files = Inr (newfiles, newdata_files)"
| "files_loop H fs oldfiles files_path (file # files) newfiles newdata_files =
     (case files_step H fs oldfiles files_path file of
        Inl e \<Rightarrow> Inl e
      | Inr (newfile, tr) \<Rightarrow>
          files_loop H fs oldfiles files_path files (newfiles @ [newfile]) (newdata_files @ tr))"

definition files_setter ::
  "(string \<Rightarrow> string) \<Rightarrow> filesystem \<Rightarrow> pyval \<Rightarrow> (string \<times> string) list \<Rightarrow> task
    \<Rightarrow> (error + unit) \<times> task" where
  "files_setter H fs files_yaml files_path t =
     (let oldfiles = dict_get (obj t) ''files'' (PList []) in
      (case py_iter files_yaml of
         Inl e \<Rightarrow> (Inl e, t)
       | Inr files \<Rightarrow>
           (case files_loop H fs oldfiles files_path files [] [] of
              Inl e \<Rightarrow> (Inl e, t)
            | Inr (newfiles, newdata_files) \<Rightarrow>
                (Inr (), t\<lparr>obj := AList.update ''files_data'' (PList newdata_files)
                                   (AList.update ''files'' (PList newfiles) (obj t)),
                           changed := AList.update ''files'' True (changed t)\<rparr>))))"

subsection \<open>The patch and the pending transfers\<close>

definition all_properties :: "string list" where
  "all_properties = PROPERTIES @ [''files''] @ META_BOOLEAN_PROPERTIES
     @ META_STRING_OR_EMPTY_PROPERTIES @ META_STRING_OR_NONE_PROPERTIES"

fun serialize_loop :: "task \<Rightarrow> string list \<Rightarrow> (string \<times> pyval) list \<Rightarrow> error + (string \<times> pyval) list" where
  "serialize_loop t [] data = Inr data"
| "serialize_loop t (prop # props) data =
     (if prop = ''meta'' then serialize_loop t props data
      else if \<not> is_changed t prop then serialize_loop t props data
      else (case map_of (obj t) prop of
              None \<Rightarrow> Inl KeyError
            | Some v \<Rightarrow> serialize_loop t props (AList.update prop v data)))"

definition serialize_as_task :: "task \<Rightarrow> error + (string \<times> pyval) list" where
  "serialize_as_task t = serialize_loop t all_properties []"

text \<open>The accessor assigns nothing; it returns its result together with the task, so that
  a second call can be written.\<close>

definition get_data_files :: "task \<Rightarrow> pyval \<times> task" where
  "get_data_files t =
     (if map_of (obj t) ''files_data'' = None then (PList [], t)
      else (dict_get (obj t) ''files_data'' PNone, t))"

section \<open>Task states and documented defaults\<close>

text \<open>The task states that a session can reach: a task is loaded, then its fields are
  set, each setter leaving the task as the model of the setter says.\<close>

inductive reachable :: "task \<Rightarrow> bool" where
  loaded: "reachable (Task_init ob)"
| set_meta: "reachable t \<Longrightarrow> reachable (snd (meta_setter v t))"
| set_description: "reachable t \<Longrightarrow> reachable (snd (description_setter v t))"
| set_script: "reachable t \<Longrightarrow> reachable (snd (script_setter v t))"
| set_param: "reachable t \<Longrightarrow> reachable (snd (param_setter v t))"
| set_paramschema: "reachable t \<Longrightarrow> reachable (snd (paramschema_setter v t))"
| set_files: "reachable t \<Longrightarrow> reachable (snd (files_setter H fs v fp t))"

text \<open>What the setters keep true of the dirty markers: a marked name is one of the
  properties that the patch reads, and the task holds a value for it.\<close>

definition dirty_ok :: "task \<Rightarrow> bool" where
  "dirty_ok t = (\<forall>k. is_changed t k \<longrightarrow>
      k \<in> set all_properties \<and> k \<noteq> ''meta'' \<and> map_of (obj t) k \<noteq> None)"

text \<open>The defaults of the metadata sub-keys as the specification documents them: false for
  the boolean flags, the literal \<open>none\<close> for the log types, the empty string for the
  title.\<close>

definition meta_defaults :: "(string \<times> pyval) list" where
  "meta_defaults =
     [(''public'', PBool False), (''importable'', PBool False), (''distributable'', PBool False),
      (''creatorLogType'', PStr ''none''), (''authorLogType'', PStr ''none''),
      (''title'', PStr [])]"


section \<open>Validity as the specification words it\<close>

text \<open>
  A parameter element is a mapping with a string \<open>name\<close> and a string \<open>value\<close>; a
  parameter-schema element is a mapping with a string \<open>name\<close> and a \<open>type\<close> of the fixed
  enumeration. A value of either field is valid when it is absent (\<open>None\<close>, an empty
  document) or a list of valid elements.
\<close>

fun is_dict :: "pyval \<Rightarrow> bool" where
  "is_dict (PDict d) = True"
| "is_dict _ = False"

definition holds_at :: "(string \<times> pyval) list \<Rightarrow> string \<Rightarrow> (pyval \<Rightarrow> bool) \<Rightarrow> bool" where
  "holds_at d k P = (case map_of d k of None \<Rightarrow> False | Some v \<Rightarrow> P v)"

definition spec_param_element :: "pyval \<Rightarrow> bool" where
  "spec_param_element e =
     (case e of
        PDict d \<Rightarrow> holds_at d ''name'' is_str \<and> holds_at d ''value'' is_str
      | _ \<Rightarrow> False)"

definition spec_paramschema_element :: "pyval \<Rightarrow> bool" where
  "spec_paramschema_element e =
     (case e of
        PDict d \<Rightarrow>
          holds_at d ''name'' is_str \<and>
          holds_at d ''type'' (\<lambda>ty. ty \<in> PStr `
            {''string'', ''integer'', ''number'', ''file'', ''boolean'', ''url''})
      | _ \<Rightarrow> False)"

definition spec_list :: "(pyval \<Rightarrow> bool) \<Rightarrow> pyval \<Rightarrow> bool" where
  "spec_list ok v = (case v of PNone \<Rightarrow> True | PList ps \<Rightarrow> list_all ok ps | _ \<Rightarrow> False)"

definition mappings_only :: "pyval \<Rightarrow> bool" where
  "mappings_only v = (case v of PList ps \<Rightarrow> list_all is_dict ps | _ \<Rightarrow> True)"


section \<open>Observations on the fileset\<close>

text \<open>
  The attribute \<^verbatim>\<open>f['data']['attributes'][k]\<close> of a fileset entry; the test that an entry has
  a given name and digest, which is what the setter looks for among the old entries; and
  the entries that a task holds. The reference of an entry to its remote copy is its key
  \<open>links\<close>, beside \<open>data\<close>.
\<close>

definition entry_attr :: "pyval \<Rightarrow> string \<Rightarrow> error + pyval" where
  "entry_attr f k =
     (case py_getitem f ''data'' of Inl e \<Rightarrow> Inl e | Inr d \<Rightarrow>
      (case py_getitem d ''attributes'' of Inl e \<Rightarrow> Inl e | Inr a \<Rightarrow> py_getitem a k))"

definition same_file :: "pyval \<Rightarrow> string \<Rightarrow> pyval \<Rightarrow> bool" where
  "same_file name hash f =
     (entry_attr f ''name'' = Inr name \<and> entry_attr f ''hashSHA256'' = Inr (PStr hash))"

definition fileset :: "task \<Rightarrow> pyval list" where
  "fileset t = (case map_of (obj t) ''files'' of Some (PList es) \<Rightarrow> es | _ \<Rightarrow> [])"

text \<open>A Python dictionary holds each key once, so the association list of a loaded mapping
  has distinct keys.\<close>

fun keys_distinct :: "pyval \<Rightarrow> bool" where
  "keys_distinct (PDict d) = distinct (map fst d)"
| "keys_distinct _ = True"


section \<open>Example inputs\<close>

text \<open>The digest at the two byte strings that the examples use: the SHA-256 of the empty
  file and of the three bytes \<open>abc\<close>.\<close>

definition sha256_table :: "string \<Rightarrow> string" where
  "sha256_table bs =
     (if bs = [] then ''e3b0c44298fc1c149afbf4c8996fb92427ae41e4649b934ca495991b7852b855''
      else if bs = ''abc'' then ''ba7816bf8f01cfea414140de5dae2223b00361a396177a9cb410ff61f20015ad''
      else [])"

definition ex_fs :: filesystem where
  "ex_fs p = (if p = ''files/x.txt''
      then Some \<lparr>content = ''abc'', getsize = 3, getmtime_ms = 1700000000000\<rparr> else None)"

definition ex_desc :: pyval where
  "ex_desc = PDict [(''name'', PStr ''x.txt''), (''type'', PStr ''text/plain''),
     (''importType'', PStr ''none''), (''preload'', PBool False), (''priority'', PInt 0)]"

definition ex_paths :: "(string \<times> string) list" where
  "ex_paths = [(''files'', ''x.txt'')]"

definition ex_task1 :: task where
  "ex_task1 = snd (files_setter sha256_table ex_fs (PList [ex_desc]) ex_paths (Task_init []))"


definition ex_meta :: pyval where
  "ex_meta = PDict [(''title'', PStr ''Demo''), (''importable'', PBool True)]"

definition ex_task3 :: task where
  "ex_task3 = snd (description_setter (PStr ''new'')
     (Task_init [(''description'', PStr ''old''), (''script'', PStr ''run()''),
        (''files'', PList [])]))"

definition ex_schema_bad :: pyval where
  "ex_schema_bad = PList [PDict [(''name'', PStr ''speed''), (''type'', PStr ''object'')]]"

definition ex_schema_good :: pyval where
  "ex_schema_good = PList [PDict [(''name'', PStr ''speed''), (''type'', PStr ''integer'')]]"

definition ex_param_bad :: pyval where
  "ex_param_bad = PList [PDict [(''name'', PStr ''speed''), (''value'', PInt 3)]]"

definition ex_param_good :: pyval where
  "ex_param_good = PList [PDict [(''name'', PStr ''speed''), (''value'', PStr ''3'')]]"

definition ex_task4 :: task where
  "ex_task4 = Task_init [(''paramschema'', PList [PDict [(''name'', PStr ''old''), (''type'', PStr ''url'')]])]"

definition ex_desc_y :: pyval where
  "ex_desc_y = PDict [(''name'', PStr ''y.txt''), (''type'', PStr ''text/plain''),
     (''importType'', PStr ''none''), (''preload'', PBool False), (''priority'', PInt 1)]"

definition ex_desc_again :: pyval where
  "ex_desc_again = PDict [(''name'', PStr ''x.txt''), (''type'', PStr ''text/plain''),
     (''importType'', PStr ''none''), (''preload'', PBool True), (''priority'', PInt 7)]"

definition ex_old_entry :: pyval where
  "ex_old_entry = PDict
     [(''type'', PStr ''files''),
      (''data'', PDict [(''attributes'', PDict
         [(''hashSHA256'', PStr ''ba7816bf8f01cfea414140de5dae2223b00361a396177a9cb410ff61f20015ad''),
          (''size'', PInt 3), (''lastModified'', PInt 1600000000000),
          (''name'', PStr ''x.txt''), (''type'', PStr ''text/plain''),
          (''importType'', PStr ''none''), (''preload'', PBool False), (''priority'', PInt 0)])]),
      (''links'', PDict [(''download'', PStr ''https://goemon.cloud/files/1/download''),
                         (''upload'', PStr ''https://goemon.cloud/files/1/upload'')])]"

definition ex_task_old :: task where
  "ex_task_old = Task_init [(''files'', PList [ex_old_entry])]"

definition ex_fd_prio :: "(string \<times> pyval) list" where
  "ex_fd_prio = [(''name'', PStr ''x.txt''), (''type'', PStr ''text/plain''),
     (''importType'', PStr ''none''), (''preload'', PBool True), (''priority'', PInt 5)]"

definition ex_desc_size :: pyval where
  "ex_desc_size = PDict [(''name'', PStr ''x.txt''), (''type'', PStr ''text/plain''),
     (''importType'', PStr ''none''), (''preload'', PBool False), (''priority'', PInt 0),
     (''size'', PInt 0)]"

definition ex_desc_hash :: pyval where
  "ex_desc_hash = PDict [(''name'', PStr ''x.txt''), (''type'', PStr ''text/plain''),
     (''importType'', PStr ''none''), (''preload'', PBool False), (''priority'', PInt 0),
     (''hashSHA256'', PStr ''0000'')]"

definition ex_task_dup :: task where
  "ex_task_dup = snd (files_setter sha256_table ex_fs (PList [ex_desc, ex_desc_again]) ex_paths
     (Task_init []))"


definition ex_task_size :: task where
  "ex_task_size = snd (files_setter sha256_table ex_fs (PList [ex_desc_size]) ex_paths ex_task_old)"

definition ex_task_hash :: task where
  "ex_task_hash = snd (files_setter sha256_table ex_fs (PList [ex_desc_hash]) ex_paths (Task_init []))"

definition ex_lf :: local_file where
  "ex_lf = \<lparr>content = ''abc'', getsize = 3, getmtime_ms = 1700000000000\<rparr>"

definition ex_lf_z :: local_file where
  "ex_lf_z = \<lparr>content = [], getsize = 0, getmtime_ms = 1700000000001\<rparr>"

definition ex_fs2 :: filesystem where
  "ex_fs2 p =
     (if p = ''files/x.txt''
      then Some \<lparr>content = ''abc'', getsize = 3, getmtime_ms = 1700000000000\<rparr>
      else if p = ''files/z.txt''
      then Some \<lparr>content = [], getsize = 0, getmtime_ms = 1700000000001\<rparr>
      else None)"

definition ex_paths2 :: "(string \<times> string) list" where
  "ex_paths2 = [(''files'', ''x.txt''), (''files'', ''z.txt'')]"

definition ex_fd_z :: "(string \<times> pyval) list" where
  "ex_fd_z = [(''name'', PStr ''z.txt''), (''type'', PStr ''text/plain''),
     (''importType'', PStr ''none''), (''preload'', PBool False), (''priority'', PInt 2)]"

definition ex_task_two :: task where
  "ex_task_two = snd (files_setter sha256_table ex_fs2 (PList [PDict ex_fd_z, PDict ex_fd_prio])
     ex_paths2 ex_task_old)"


section \<open>Properties\<close>

subsection \<open>The setter of the files, when it returns\<close>

lemma files_setter_Inr:
  assumes "files_setter H fs v fp t = (Inr u, t')"
  shows "\<exists>files newfiles tr.
           py_iter v = Inr files \<and>
           files_loop H fs (dict_get (obj t) ''files'' (PList [])) fp files [] [] = Inr (newfiles, tr) \<and>
           t' = t\<lparr>obj := AList.update ''files_data'' (PList tr)
                            (AList.update ''files'' (PList newfiles) (obj t)),
                  changed := AList.update ''files'' True (changed t)\<rparr>"
  using assms
  by (auto simp: files_setter_def Let_def split: sum.splits prod.splits)

subsection \<open>The pending transfers\<close>

text \<open>
  Claim C5, as amended. \<open>get_data_files\<close> is a plain read: after a fileset replacement that
  returned, it gives the tuples that the replacement computed and leaves the task as it
  is, so a second call gives the same tuples again. Nothing clears them.
\<close>

theorem get_data_files_not_consumed:
  assumes "files_setter H fs v fp t = (Inr (), t')"
  shows "\<exists>files newfiles tr.
           py_iter v = Inr files \<and>
           files_loop H fs (dict_get (obj t) ''files'' (PList [])) fp files [] [] = Inr (newfiles, tr) \<and>
           get_data_files t' = (PList tr, t') \<and>
           get_data_files (snd (get_data_files t')) = (PList tr, t')"
proof -
  from files_setter_Inr [OF assms] obtain files newfiles tr where
    it: "py_iter v = Inr files" and
    lp: "files_loop H fs (dict_get (obj t) ''files'' (PList [])) fp files [] [] = Inr (newfiles, tr)" and
    t': "t' = t\<lparr>obj := AList.update ''files_data'' (PList tr)
                            (AList.update ''files'' (PList newfiles) (obj t)),
                  changed := AList.update ''files'' True (changed t)\<rparr>"
    by blast
  have "map_of (obj t') ''files_data'' = Some (PList tr)"
    by (simp add: t' update_conv')
  then have g: "get_data_files t' = (PList tr, t')"
    by (simp add: get_data_files_def dict_get_def)
  with it lp show ?thesis by auto
qed

theorem get_data_files_not_consumed_witness:
  "\<exists>files newfiles tr.
     py_iter (PList [ex_desc]) = Inr files \<and>
     files_loop sha256_table ex_fs (dict_get (obj (Task_init [])) ''files'' (PList [])) ex_paths files [] []
       = Inr (newfiles, tr) \<and>
     get_data_files ex_task1 = (PList tr, ex_task1) \<and>
     get_data_files (snd (get_data_files ex_task1)) = (PList tr, ex_task1)"
proof -
  have h: "files_setter sha256_table ex_fs (PList [ex_desc]) ex_paths (Task_init []) = (Inr (), ex_task1)"
    by code_simp
  show ?thesis by (rule get_data_files_not_consumed [OF h])
qed

text \<open>
  Claim C5 as it was stated fails: after one new file has been reconciled, the second
  call of the accessor still returns the tuple of that file, not the empty list.
\<close>

theorem get_data_files_second_call_counterexample:
  "fst (files_setter sha256_table ex_fs (PList [ex_desc]) ex_paths (Task_init [])) = Inr () \<and>
   fst (get_data_files ex_task1) =
     PList [PTuple [PStr ''x.txt'',
       PStr ''ba7816bf8f01cfea414140de5dae2223b00361a396177a9cb410ff61f20015ad'',
       PStr ''files/x.txt'']] \<and>
   fst (get_data_files (snd (get_data_files ex_task1))) =
     PList [PTuple [PStr ''x.txt'',
       PStr ''ba7816bf8f01cfea414140de5dae2223b00361a396177a9cb410ff61f20015ad'',
       PStr ''files/x.txt'']]"
  by code_simp


subsection \<open>The metadata field\<close>

lemma obj_assign: "map_of (obj (assign k v t)) k' = (if k' = k then Some v else map_of (obj t) k')"
  by (simp add: assign_def update_conv')

lemma is_changed_assign: "is_changed (assign k v t) k' = (k' = k \<or> is_changed t k')"
  by (simp add: assign_def is_changed_def update_conv')

lemma meta_assign_dict:
  "meta_assign (PDict d) dflt keys t =
     (Inr (), fold (\<lambda>k. assign k (dict_get d k dflt)) keys t)"
  by (induction keys arbitrary: t) simp_all

lemma meta_setter_dict:
  "meta_setter (PDict d) t =
    (Inr (),
      assign ''title'' (dict_get d ''title'' (PStr []))
       (assign ''authorLogType'' (dict_get d ''authorLogType'' (PStr ''none''))
        (assign ''creatorLogType'' (dict_get d ''creatorLogType'' (PStr ''none''))
         (assign ''distributable'' (dict_get d ''distributable'' (PBool False))
          (assign ''importable'' (dict_get d ''importable'' (PBool False))
           (assign ''public'' (dict_get d ''public'' (PBool False)) t))))))"
  by (simp add: meta_setter_def meta_assign_dict META_BOOLEAN_PROPERTIES_def
      META_STRING_OR_NONE_PROPERTIES_def META_STRING_OR_EMPTY_PROPERTIES_def)


lemma meta_setter_dict_facts:
  "\<exists>t'. meta_setter (PDict d) t = (Inr (), t') \<and>
        (\<forall>(k, dflt) \<in> set meta_defaults.
            map_of (obj t') k = Some (dict_get d k dflt) \<and> is_changed t' k) \<and>
        (\<forall>k. k \<notin> fst ` set meta_defaults \<longrightarrow>
            map_of (obj t') k = map_of (obj t) k \<and> is_changed t' k = is_changed t k)"
  by (simp add: meta_setter_dict meta_defaults_def obj_assign is_changed_assign)




subsection \<open>The patch\<close>

lemma dirty_ok_assign:
  assumes "dirty_ok t" "k \<in> set all_properties" "k \<noteq> ''meta''"
  shows "dirty_ok (assign k v t)"
  using assms by (auto simp: dirty_ok_def obj_assign is_changed_assign)

lemma dirty_ok_meta_assign:
  assumes "dirty_ok t" "set keys \<subseteq> set all_properties" "''meta'' \<notin> set keys"
  shows "dirty_ok (snd (meta_assign v dflt keys t))"
  using assms
proof (induction keys arbitrary: t)
  case Nil
  then show ?case by simp
next
  case (Cons k keys)
  show ?case
  proof (cases "py_get v k dflt")
    case (Inl e)
    with Cons.prems show ?thesis by simp
  next
    case (Inr x)
    have "dirty_ok (assign k x t)"
      using Cons.prems by (intro dirty_ok_assign) auto
    then have "dirty_ok (snd (meta_assign v dflt keys (assign k x t)))"
      using Cons.prems by (intro Cons.IH) auto
    with Inr show ?thesis by simp
  qed
qed

lemma dirty_ok_meta_setter:
  assumes "dirty_ok t"
  shows "dirty_ok (snd (meta_setter v t))"
proof -
  let ?r1 = "meta_assign v (PBool False) META_BOOLEAN_PROPERTIES t"
  let ?r2 = "meta_assign v (PStr ''none'') META_STRING_OR_NONE_PROPERTIES (snd ?r1)"
  let ?r3 = "meta_assign v (PStr []) META_STRING_OR_EMPTY_PROPERTIES (snd ?r2)"
  have 1: "dirty_ok (snd ?r1)"
    by (rule dirty_ok_meta_assign [OF assms])
       (simp_all add: all_properties_def META_BOOLEAN_PROPERTIES_def)
  have 2: "dirty_ok (snd ?r2)"
    by (rule dirty_ok_meta_assign [OF 1])
       (simp_all add: all_properties_def META_STRING_OR_NONE_PROPERTIES_def)
  have 3: "dirty_ok (snd ?r3)"
    by (rule dirty_ok_meta_assign [OF 2])
       (simp_all add: all_properties_def META_STRING_OR_EMPTY_PROPERTIES_def)
  show ?thesis
    using 1 2 3
    by (cases ?r1; cases ?r2) (auto simp: meta_setter_def split: sum.splits)
qed

lemma dirty_ok_files_setter:
  assumes "dirty_ok t"
  shows "dirty_ok (snd (files_setter H fs v fp t))"
proof (cases "fst (files_setter H fs v fp t)")
  case (Inl e)
  then have "snd (files_setter H fs v fp t) = t"
    by (auto simp: files_setter_def Let_def split: sum.splits prod.splits)
  with assms show ?thesis by simp
next
  case (Inr u)
  then have "files_setter H fs v fp t = (Inr u, snd (files_setter H fs v fp t))"
    by (metis prod.collapse)
  from files_setter_Inr [OF this] obtain newfiles tr where
    "snd (files_setter H fs v fp t) =
       t\<lparr>obj := AList.update ''files_data'' (PList tr)
                  (AList.update ''files'' (PList newfiles) (obj t)),
         changed := AList.update ''files'' True (changed t)\<rparr>"
    by blast
  then show ?thesis
    using assms
    by (auto simp: dirty_ok_def is_changed_def update_conv' all_properties_def)
qed

lemma reachable_dirty_ok: "reachable t \<Longrightarrow> dirty_ok t"
proof (induction rule: reachable.induct)
  case (loaded ob)
  show ?case by (simp add: dirty_ok_def Task_init_def is_changed_def)
next
  case (set_meta t v)
  then show ?case by (simp add: dirty_ok_meta_setter)
next
  case (set_description t v)
  then show ?case
    by (simp add: description_setter_def dirty_ok_assign all_properties_def PROPERTIES_def)
next
  case (set_script t v)
  then show ?case
    by (simp add: script_setter_def dirty_ok_assign all_properties_def PROPERTIES_def)
next
  case (set_param t v)
  then show ?case
    by (cases "validate_param v")
       (simp_all add: param_setter_def dirty_ok_assign all_properties_def PROPERTIES_def)
next
  case (set_paramschema t v)
  then show ?case
    by (cases "validate_paramschema v")
       (simp_all add: paramschema_setter_def dirty_ok_assign all_properties_def PROPERTIES_def)
next
  case (set_files t H fs v fp)
  then show ?case by (simp add: dirty_ok_files_setter)
qed

lemma serialize_loop_lookup:
  "serialize_loop t props data = Inr out \<Longrightarrow>
     map_of out k =
       (if k \<in> set props \<and> k \<noteq> ''meta'' \<and> is_changed t k then map_of (obj t) k
        else map_of data k)"
proof (induction props arbitrary: data)
  case Nil
  then show ?case by simp
next
  case (Cons p props)
  show ?case
  proof (cases "p = ''meta'' \<or> \<not> is_changed t p")
    case True
    with Cons.prems have "serialize_loop t props data = Inr out"
      by (auto split: if_splits)
    from Cons.IH [OF this] True show ?thesis by auto
  next
    case False
    with Cons.prems obtain v where v: "map_of (obj t) p = Some v"
      and r: "serialize_loop t props (AList.update p v data) = Inr out"
      by (auto split: option.splits if_splits)
    from Cons.IH [OF r] False v show ?thesis
      by (auto simp: update_conv')
  qed
qed

lemma serialize_loop_returns:
  "\<forall>p \<in> set props. p \<noteq> ''meta'' \<and> is_changed t p \<longrightarrow> map_of (obj t) p \<noteq> None \<Longrightarrow>
     \<exists>out. serialize_loop t props data = Inr out"
  by (induction props arbitrary: data) (auto split: option.splits)

lemma serialize_lookup:
  "serialize_as_task t = Inr data \<Longrightarrow>
     map_of data k =
       (if k \<in> set all_properties \<and> k \<noteq> ''meta'' \<and> is_changed t k then map_of (obj t) k
        else None)"
  unfolding serialize_as_task_def by (drule serialize_loop_lookup [where k = k]) simp

lemma serialize_returns: "dirty_ok t \<Longrightarrow> \<exists>data. serialize_as_task t = Inr data"
  unfolding serialize_as_task_def
  by (rule serialize_loop_returns) (simp add: dirty_ok_def)

text \<open>
  Claim C4. In every task state, a field that is not marked dirty is absent from the
  patch, whatever the task holds for it. In every state that a session reaches, the
  patch is built, its keys are exactly the dirty fields, and each carries the value the
  task holds.
\<close>

theorem serialize_exactly_dirty:
  "(\<forall>data k. serialize_as_task t = Inr data \<and> \<not> is_changed t k \<longrightarrow> map_of data k = None) \<and>
   (reachable t \<longrightarrow>
      (\<exists>data. serialize_as_task t = Inr data \<and>
         (\<forall>k. (map_of data k \<noteq> None) = is_changed t k) \<and>
         (\<forall>k. is_changed t k \<longrightarrow> map_of data k = map_of (obj t) k)))"
proof (intro conjI allI impI)
  fix data k
  assume "serialize_as_task t = Inr data \<and> \<not> is_changed t k"
  then show "map_of data k = None"
    using serialize_lookup [of t data k] by simp
next
  assume "reachable t"
  then have ok: "dirty_ok t" by (rule reachable_dirty_ok)
  then obtain data where d: "serialize_as_task t = Inr data"
    using serialize_returns by blast
  have "\<forall>k. (map_of data k \<noteq> None) = is_changed t k"
    using ok by (auto simp: serialize_lookup [OF d] dirty_ok_def)
  moreover have "\<forall>k. is_changed t k \<longrightarrow> map_of data k = map_of (obj t) k"
    using ok by (auto simp: serialize_lookup [OF d] dirty_ok_def)
  ultimately show "\<exists>data. serialize_as_task t = Inr data \<and>
         (\<forall>k. (map_of data k \<noteq> None) = is_changed t k) \<and>
         (\<forall>k. is_changed t k \<longrightarrow> map_of data k = map_of (obj t) k)"
    using d by blast
qed

text \<open>The same after only the description has been set: the script and the files, which
  the task holds, stay out of the patch.\<close>

theorem serialize_exactly_dirty_witness:
  "serialize_as_task ex_task3 = Inr [(''description'', PStr ''new'')] \<and>
   is_changed ex_task3 ''description'' \<and>
   \<not> is_changed ex_task3 ''script'' \<and>
   map_of (obj ex_task3) ''script'' = Some (PStr ''run()'') \<and>
   (\<exists>data. serialize_as_task ex_task3 = Inr data \<and>
         (\<forall>k. (map_of data k \<noteq> None) = is_changed ex_task3 k) \<and>
         (\<forall>k. is_changed ex_task3 k \<longrightarrow> map_of data k = map_of (obj ex_task3) k))"
proof -
  have r: "reachable ex_task3"
    unfolding ex_task3_def by (intro reachable.set_description reachable.loaded)
  have c: "serialize_as_task ex_task3 = Inr [(''description'', PStr ''new'')]"
    "is_changed ex_task3 ''description''"
    "\<not> is_changed ex_task3 ''script''"
    "map_of (obj ex_task3) ''script'' = Some (PStr ''run()'')"
    by code_simp+
  from serialize_exactly_dirty [of ex_task3] r c show ?thesis by blast
qed

text \<open>
  Claim C10. No patch has a key \<open>meta\<close>, in any task state. After the metadata has been
  set in a reachable state, the patch is built and carries each of the six sub-keys with
  its value from the mapping, or its default.
\<close>

theorem serialize_never_meta:
  "(\<forall>data. serialize_as_task t = Inr data \<longrightarrow> map_of data ''meta'' = None) \<and>
   (reachable t \<longrightarrow>
      (\<exists>t' data. meta_setter (PDict d) t = (Inr (), t') \<and>
         serialize_as_task t' = Inr data \<and>
         map_of data ''meta'' = None \<and>
         (\<forall>(k, dflt) \<in> set meta_defaults. map_of data k = Some (dict_get d k dflt))))"
proof (intro conjI allI impI)
  fix data
  assume "serialize_as_task t = Inr data"
  then show "map_of data ''meta'' = None"
    using serialize_lookup [of t data "''meta''"] by simp
next
  assume r: "reachable t"
  obtain t' where t': "meta_setter (PDict d) t = (Inr (), t')"
    and v: "\<forall>(k, dflt) \<in> set meta_defaults.
            map_of (obj t') k = Some (dict_get d k dflt) \<and> is_changed t' k"
    using meta_setter_dict_facts [of d t] by blast
  have "reachable (snd (meta_setter (PDict d) t))"
    using r by (rule reachable.set_meta)
  then have "dirty_ok t'" using t' by (simp add: reachable_dirty_ok)
  then obtain data where dt: "serialize_as_task t' = Inr data"
    using serialize_returns by blast
  have "map_of data ''meta'' = None" by (simp add: serialize_lookup [OF dt])
  moreover have "\<forall>(k, dflt) \<in> set meta_defaults. map_of data k = Some (dict_get d k dflt)"
    using v by (auto simp: serialize_lookup [OF dt] meta_defaults_def all_properties_def
        META_BOOLEAN_PROPERTIES_def META_STRING_OR_NONE_PROPERTIES_def
        META_STRING_OR_EMPTY_PROPERTIES_def)
  ultimately show "\<exists>t' data. meta_setter (PDict d) t = (Inr (), t') \<and>
         serialize_as_task t' = Inr data \<and>
         map_of data ''meta'' = None \<and>
         (\<forall>(k, dflt) \<in> set meta_defaults. map_of data k = Some (dict_get d k dflt))"
    using t' dt by blast
qed

text \<open>The same after the description and then the metadata have been set.\<close>

theorem serialize_never_meta_witness:
  "serialize_as_task (snd (meta_setter ex_meta ex_task3)) =
     Inr [(''description'', PStr ''new''),
          (''public'', PBool False), (''importable'', PBool True),
          (''distributable'', PBool False), (''title'', PStr ''Demo''),
          (''creatorLogType'', PStr ''none''), (''authorLogType'', PStr ''none'')] \<and>
   (\<exists>t' data. meta_setter ex_meta ex_task3 = (Inr (), t') \<and>
         serialize_as_task t' = Inr data \<and>
         map_of data ''meta'' = None \<and>
         (\<forall>(k, dflt) \<in> set meta_defaults. map_of data k =
            Some (dict_get [(''title'', PStr ''Demo''), (''importable'', PBool True)] k dflt)))"
proof -
  have r: "reachable ex_task3"
    unfolding ex_task3_def by (intro reachable.set_description reachable.loaded)
  have c: "serialize_as_task (snd (meta_setter ex_meta ex_task3)) =
     Inr [(''description'', PStr ''new''),
          (''public'', PBool False), (''importable'', PBool True),
          (''distributable'', PBool False), (''title'', PStr ''Demo''),
          (''creatorLogType'', PStr ''none''), (''authorLogType'', PStr ''none'')]"
    by code_simp
  have m: "ex_meta = PDict [(''title'', PStr ''Demo''), (''importable'', PBool True)]"
    by (simp add: ex_meta_def)
  from serialize_never_meta [of ex_task3 "[(''title'', PStr ''Demo''), (''importable'', PBool True)]"] r
  have "\<exists>t' data. meta_setter ex_meta ex_task3 = (Inr (), t') \<and>
         serialize_as_task t' = Inr data \<and>
         map_of data ''meta'' = None \<and>
         (\<forall>(k, dflt) \<in> set meta_defaults. map_of data k =
            Some (dict_get [(''title'', PStr ''Demo''), (''importable'', PBool True)] k dflt))"
    unfolding m by blast
  with c show ?thesis by blast
qed


subsection \<open>The parameter list and the parameter schema\<close>

lemma check_key_dict:
  "check_key key ok (PDict d) = (if holds_at d key ok then Inr () else Inl ValueError)"
  by (simp add: check_key_def holds_at_def split: option.splits)

lemma check_key_not_dict:
  "\<not> is_dict elem \<Longrightarrow> check_key key ok elem = Inl ValueError \<or> check_key key ok elem = Inl TypeError"
  by (cases elem) (simp_all add: check_key_def split: bool.splits)

lemma validate_param_field_valid:
  "spec_param_element elem \<Longrightarrow> validate_param_field elem = Inr ()"
  by (cases elem) (simp_all add: spec_param_element_def validate_param_field_def check_key_dict)

lemma validate_param_field_invalid:
  assumes "\<not> spec_param_element elem"
  shows "\<exists>e. validate_param_field elem = Inl e \<and> (e = ValueError \<or> e = TypeError) \<and>
            (is_dict elem \<longrightarrow> e = ValueError)"
proof (cases "is_dict elem")
  case True
  then obtain d where "elem = PDict d" by (cases elem) simp_all
  with assms show ?thesis
    by (auto simp: spec_param_element_def validate_param_field_def check_key_dict)
next
  case False
  from check_key_not_dict [OF this, of "''name''" is_str]
  show ?thesis using False by (auto simp: validate_param_field_def)
qed

lemma validate_paramschema_field_valid:
  "spec_paramschema_element elem \<Longrightarrow> validate_paramschema_field elem = Inr ()"
  by (cases elem)
     (simp_all add: spec_paramschema_element_def validate_paramschema_field_def check_key_dict
        paramschema_types_def)

lemma validate_paramschema_field_invalid:
  assumes "\<not> spec_paramschema_element elem"
  shows "\<exists>e. validate_paramschema_field elem = Inl e \<and> (e = ValueError \<or> e = TypeError) \<and>
            (is_dict elem \<longrightarrow> e = ValueError)"
proof (cases "is_dict elem")
  case True
  then obtain d where "elem = PDict d" by (cases elem) simp_all
  with assms show ?thesis
    by (auto simp: spec_paramschema_element_def validate_paramschema_field_def check_key_dict
        paramschema_types_def)
next
  case False
  from check_key_not_dict [OF this, of "''name''" is_str]
  show ?thesis using False by (auto simp: validate_paramschema_field_def)
qed

lemma validate_each_valid:
  "list_all ok ps \<Longrightarrow> (\<And>p. ok p \<Longrightarrow> f p = Inr ()) \<Longrightarrow> validate_each f ps = Inr ()"
  by (induction ps) simp_all

lemma validate_each_invalid:
  assumes "\<not> list_all ok ps"
    and "\<And>p. ok p \<Longrightarrow> f p = Inr ()"
    and "\<And>p. \<not> ok p \<Longrightarrow> \<exists>e. f p = Inl e \<and> (e = ValueError \<or> e = TypeError) \<and>
            (is_dict p \<longrightarrow> e = ValueError)"
  shows "\<exists>e. validate_each f ps = Inl e \<and> (e = ValueError \<or> e = TypeError) \<and>
            (list_all is_dict ps \<longrightarrow> e = ValueError)"
  using assms(1)
proof (induction ps)
  case Nil
  then show ?case by simp
next
  case (Cons p ps)
  show ?case
  proof (cases "ok p")
    case True
    with Cons.prems have "\<not> list_all ok ps" by simp
    from Cons.IH [OF this] assms(2) [OF True] show ?thesis by auto
  next
    case False
    from assms(3) [OF False] show ?thesis by auto
  qed
qed

lemma validate_param_valid: "spec_list spec_param_element v \<Longrightarrow> validate_param v = Inr ()"
  by (cases v) (simp_all add: spec_list_def validate_each_valid validate_param_field_valid)

lemma validate_param_invalid:
  assumes "\<not> spec_list spec_param_element v"
  shows "\<exists>e. validate_param v = Inl e \<and> (e = ValueError \<or> e = TypeError) \<and>
           (mappings_only v \<longrightarrow> e = ValueError)"
proof (cases v)
  case (PList ps)
  with assms have "\<not> list_all spec_param_element ps" by (simp add: spec_list_def)
  from validate_each_invalid [OF this validate_param_field_valid validate_param_field_invalid]
  show ?thesis using PList by (simp add: mappings_only_def)
qed (use assms in \<open>simp_all add: spec_list_def\<close>)

lemma validate_paramschema_valid:
  "spec_list spec_paramschema_element v \<Longrightarrow> validate_paramschema v = Inr ()"
  by (cases v)
     (simp_all add: spec_list_def validate_each_valid validate_paramschema_field_valid)

lemma validate_paramschema_invalid:
  assumes "\<not> spec_list spec_paramschema_element v"
  shows "\<exists>e. validate_paramschema v = Inl e \<and> (e = ValueError \<or> e = TypeError) \<and>
           (mappings_only v \<longrightarrow> e = ValueError)"
proof (cases v)
  case (PList ps)
  with assms have "\<not> list_all spec_paramschema_element ps" by (simp add: spec_list_def)
  from validate_each_invalid [OF this validate_paramschema_field_valid
      validate_paramschema_field_invalid]
  show ?thesis using PList by (simp add: mappings_only_def)
qed (use assms in \<open>simp_all add: spec_list_def\<close>)

text \<open>
  Claim C7, as amended. Setting the parameter list or the parameter schema with an
  invalid value raises from the validator and leaves the task as it was, stored value
  and dirty marker included; with a valid value the setter returns, stores the value and
  marks the field dirty. The exception is the \<open>ValueError\<close> of the validation whenever every
  element of the list is a mapping, and whenever the value is not a list; with an element
  that is not a mapping it is \<open>ValueError\<close> or \<open>TypeError\<close>.
\<close>

theorem param_setters_validate:
  "(\<not> spec_list spec_param_element v \<longrightarrow>
      (\<exists>e. param_setter v t = (Inl e, t) \<and> (e = ValueError \<or> e = TypeError) \<and>
           (mappings_only v \<longrightarrow> e = ValueError))) \<and>
   (spec_list spec_param_element v \<longrightarrow>
      (\<exists>t'. param_setter v t = (Inr (), t') \<and>
           map_of (obj t') ''param'' = Some v \<and> is_changed t' ''param'')) \<and>
   (\<not> spec_list spec_paramschema_element v \<longrightarrow>
      (\<exists>e. paramschema_setter v t = (Inl e, t) \<and> (e = ValueError \<or> e = TypeError) \<and>
           (mappings_only v \<longrightarrow> e = ValueError))) \<and>
   (spec_list spec_paramschema_element v \<longrightarrow>
      (\<exists>t'. paramschema_setter v t = (Inr (), t') \<and>
           map_of (obj t') ''paramschema'' = Some v \<and> is_changed t' ''paramschema''))"
proof (intro conjI impI)
  assume "\<not> spec_list spec_param_element v"
  from validate_param_invalid [OF this]
  show "\<exists>e. param_setter v t = (Inl e, t) \<and> (e = ValueError \<or> e = TypeError) \<and>
           (mappings_only v \<longrightarrow> e = ValueError)"
    by (auto simp: param_setter_def)
next
  assume "spec_list spec_param_element v"
  from validate_param_valid [OF this]
  show "\<exists>t'. param_setter v t = (Inr (), t') \<and>
           map_of (obj t') ''param'' = Some v \<and> is_changed t' ''param''"
    by (simp add: param_setter_def assign_def is_changed_def update_conv')
next
  assume "\<not> spec_list spec_paramschema_element v"
  from validate_paramschema_invalid [OF this]
  show "\<exists>e. paramschema_setter v t = (Inl e, t) \<and> (e = ValueError \<or> e = TypeError) \<and>
           (mappings_only v \<longrightarrow> e = ValueError)"
    by (auto simp: paramschema_setter_def)
next
  assume "spec_list spec_paramschema_element v"
  from validate_paramschema_valid [OF this]
  show "\<exists>t'. paramschema_setter v t = (Inr (), t') \<and>
           map_of (obj t') ''paramschema'' = Some v \<and> is_changed t' ''paramschema''"
    by (simp add: paramschema_setter_def assign_def is_changed_def update_conv')
qed

text \<open>The same at a schema element of type \<open>object\<close>, at a parameter whose value is an
  integer, and at valid values of both.\<close>

theorem param_setters_validate_witness:
  "\<not> spec_list spec_paramschema_element ex_schema_bad \<and>
   paramschema_setter ex_schema_bad ex_task4 = (Inl ValueError, ex_task4) \<and>
   spec_list spec_paramschema_element ex_schema_good \<and>
   (\<exists>t'. paramschema_setter ex_schema_good ex_task4 = (Inr (), t') \<and>
        map_of (obj t') ''paramschema'' = Some ex_schema_good \<and> is_changed t' ''paramschema'') \<and>
   \<not> spec_list spec_param_element ex_param_bad \<and>
   param_setter ex_param_bad ex_task4 = (Inl ValueError, ex_task4) \<and>
   spec_list spec_param_element ex_param_good \<and>
   (\<exists>t'. param_setter ex_param_good ex_task4 = (Inr (), t') \<and>
        map_of (obj t') ''param'' = Some ex_param_good \<and> is_changed t' ''param'')"
proof -
  have b: "\<not> spec_list spec_paramschema_element ex_schema_bad" "mappings_only ex_schema_bad"
    and g: "spec_list spec_paramschema_element ex_schema_good"
    and pb: "\<not> spec_list spec_param_element ex_param_bad" "mappings_only ex_param_bad"
    and pg: "spec_list spec_param_element ex_param_good"
    by code_simp+
  from param_setters_validate [of ex_schema_bad ex_task4] b
  have 1: "paramschema_setter ex_schema_bad ex_task4 = (Inl ValueError, ex_task4)" by auto
  from param_setters_validate [of ex_schema_good ex_task4] g
  have 2: "\<exists>t'. paramschema_setter ex_schema_good ex_task4 = (Inr (), t') \<and>
        map_of (obj t') ''paramschema'' = Some ex_schema_good \<and> is_changed t' ''paramschema''"
    by blast
  from param_setters_validate [of ex_param_bad ex_task4] pb
  have 3: "param_setter ex_param_bad ex_task4 = (Inl ValueError, ex_task4)" by auto
  from param_setters_validate [of ex_param_good ex_task4] pg
  have 4: "\<exists>t'. param_setter ex_param_good ex_task4 = (Inr (), t') \<and>
        map_of (obj t') ''param'' = Some ex_param_good \<and> is_changed t' ''param''"
    by blast
  from b g pb pg 1 2 3 4 show ?thesis by blast
qed


text \<open>
  Claim C7 as it was stated fails: the list with the one element \<open>5\<close> is invalid for both
  fields, and the membership test of the validator raises \<open>TypeError\<close> on it, not the
  \<open>ValueError\<close> of the validation. The task is left as it was.
\<close>

theorem param_setters_type_error_counterexample:
  "\<not> spec_list spec_param_element (PList [PInt 5]) \<and>
   param_setter (PList [PInt 5]) ex_task4 = (Inl TypeError, ex_task4) \<and>
   \<not> spec_list spec_paramschema_element (PList [PInt 5]) \<and>
   paramschema_setter (PList [PInt 5]) ex_task4 = (Inl TypeError, ex_task4)"
  by code_simp

subsection \<open>Updating a dictionary\<close>

lemma dict_update_Cons: "dict_update a ((k, v) # b) = dict_update (AList.update k v a) b"
  by (simp add: dict_update_def)

lemma map_of_dict_update_None:
  "map_of b k = None \<Longrightarrow> map_of (dict_update a b) k = map_of a k"
proof (induction b arbitrary: a)
  case Nil
  then show ?case by (simp add: dict_update_def)
next
  case (Cons p b)
  obtain k' v' where p: "p = (k', v')" by (cases p)
  from Cons.prems p have "k \<noteq> k'" "map_of b k = None" by (auto split: if_splits)
  then show ?case by (simp add: p dict_update_Cons Cons.IH update_conv')
qed

lemma map_of_dict_update_Some:
  "distinct (map fst b) \<Longrightarrow> map_of b k = Some x \<Longrightarrow> map_of (dict_update a b) k = Some x"
proof (induction b arbitrary: a)
  case Nil
  then show ?case by simp
next
  case (Cons p b)
  obtain k' v' where p: "p = (k', v')" by (cases p)
  show ?case
  proof (cases "k = k'")
    case True
    with Cons.prems p have x: "x = v'" and "k \<notin> fst ` set b" by auto
    then have "map_of b k = None" by (simp add: map_of_eq_None_iff)
    then show ?thesis by (simp add: p dict_update_Cons map_of_dict_update_None update_conv' True x)
  next
    case False
    with Cons.prems p show ?thesis by (simp add: dict_update_Cons Cons.IH)
  qed
qed

lemma map_of_dict_update:
  "distinct (map fst b) \<Longrightarrow>
     map_of (dict_update a b) k = (case map_of b k of None \<Rightarrow> map_of a k | Some x \<Rightarrow> Some x)"
  by (simp add: map_of_dict_update_None map_of_dict_update_Some split: option.splits)

subsection \<open>The loop of the setter of the files\<close>

lemma map_Inr_D: "map f xs = map Inr rs \<Longrightarrow> x \<in> set xs \<Longrightarrow> \<exists>r. f x = Inr r"
  by (induction xs arbitrary: rs) (auto simp: Cons_eq_map_conv)

lemma map_Inr_I: "\<forall>x \<in> set xs. \<exists>r. f x = Inr r \<Longrightarrow> \<exists>rs. map f xs = map Inr rs"
proof (induction xs)
  case Nil
  then show ?case by simp
next
  case (Cons x xs)
  then obtain r rs where "f x = Inr r" "map f xs = map Inr rs" by auto
  then have "map f (x # xs) = map Inr (r # rs)" by simp
  then show ?case by blast
qed

lemma files_loop_Inr_iff:
  "files_loop H fs old fp files nf nd = Inr (nf', nd') \<longleftrightarrow>
     (\<exists>rs. map (files_step H fs old fp) files = map Inr rs \<and>
           nf' = nf @ map fst rs \<and> nd' = nd @ concat (map snd rs))"
proof (induction files arbitrary: nf nd nf' nd')
  case Nil
  then show ?case by auto
next
  case (Cons d ds)
  show ?case
  proof (cases "files_step H fs old fp d")
    case (Inl e)
    then show ?thesis by (auto simp: map_eq_Cons_conv)
  next
    case (Inr r)
    obtain newfile tr where r: "r = (newfile, tr)" by (cases r)
    show ?thesis
    proof
      assume "files_loop H fs old fp (d # ds) nf nd = Inr (nf', nd')"
      with Inr r have "files_loop H fs old fp ds (nf @ [newfile]) (nd @ tr) = Inr (nf', nd')"
        by simp
      then obtain rs where "map (files_step H fs old fp) ds = map Inr rs"
        "nf' = (nf @ [newfile]) @ map fst rs" "nd' = (nd @ tr) @ concat (map snd rs)"
        using Cons.IH by blast
      then have "map (files_step H fs old fp) (d # ds) = map Inr (r # rs) \<and>
           nf' = nf @ map fst (r # rs) \<and> nd' = nd @ concat (map snd (r # rs))"
        using Inr r by simp
      then show "\<exists>rs. map (files_step H fs old fp) (d # ds) = map Inr rs \<and>
           nf' = nf @ map fst rs \<and> nd' = nd @ concat (map snd rs)"
        by blast
    next
      assume "\<exists>rs. map (files_step H fs old fp) (d # ds) = map Inr rs \<and>
           nf' = nf @ map fst rs \<and> nd' = nd @ concat (map snd rs)"
      then obtain rs where a: "map (files_step H fs old fp) (d # ds) = map Inr rs"
        and b: "nf' = nf @ map fst rs" "nd' = nd @ concat (map snd rs)" by blast
      from a Inr obtain rs' where rs: "rs = r # rs'"
        and c: "map (files_step H fs old fp) ds = map Inr rs'"
        by (cases rs) auto
      have "files_loop H fs old fp ds (nf @ [newfile]) (nd @ tr) = Inr (nf', nd')"
        using c b rs r by (subst Cons.IH) auto
      with Inr r show "files_loop H fs old fp (d # ds) nf nd = Inr (nf', nd')"
        by simp
    qed
  qed
qed

lemma files_loop_append:
  "files_loop H fs old fp (pre @ post) nf nd =
     (case files_loop H fs old fp pre nf nd of
        Inl e \<Rightarrow> Inl e
      | Inr (nf1, nd1) \<Rightarrow> files_loop H fs old fp post nf1 nd1)"
  by (induction pre arbitrary: nf nd) (auto split: sum.splits)

lemma files_loop_fails:
  assumes "file \<in> set files" "files_step H fs old fp file = Inl e"
  shows "\<exists>e'. files_loop H fs old fp files nf nd = Inl e'"
proof (cases "files_loop H fs old fp files nf nd")
  case (Inl e')
  then show ?thesis by blast
next
  case (Inr r)
  obtain nf' nd' where "r = (nf', nd')" by (cases r)
  with Inr obtain rs where "map (files_step H fs old fp) files = map Inr rs"
    using files_loop_Inr_iff by blast
  from map_Inr_D [OF this assms(1)] assms(2) show ?thesis by simp
qed

lemma files_setter_fails:
  assumes "py_iter v = Inr files"
    "files_loop H fs (dict_get (obj t) ''files'' (PList [])) fp files [] [] = Inl e"
  shows "files_setter H fs v fp t = (Inl e, t)"
  using assms by (simp add: files_setter_def)

lemma locate_empty: "n \<notin> snd ` set fp \<Longrightarrow> locate fp (PStr n) = []"
  by (induction fp) (auto simp: locate_def)

lemma files_step_unlocated:
  assumes "validate_file file = Inr ()" "py_getitem file ''name'' = Inr (PStr n)"
    "n \<notin> snd ` set fp"
  shows "files_step H fs old fp file = Inl IndexError"
  using assms by (simp add: files_step_def locate_empty)

lemma files_loop_first_failure:
  assumes "j < length files"
    and "files_loop H fs old fp (take j files) nf nd = Inr r"
    and "files_step H fs old fp (files ! j) = Inl e"
  shows "files_loop H fs old fp files nf nd = Inl e"
proof -
  obtain nf1 nd1 where r: "r = (nf1, nd1)" by (cases r)
  have "files = take j files @ files ! j # drop (Suc j) files"
    using assms(1) by (simp add: id_take_nth_drop)
  then have "files_loop H fs old fp files nf nd =
      files_loop H fs old fp (take j files @ files ! j # drop (Suc j) files) nf nd"
    by simp
  also have "\<dots> = Inl e"
    using assms(2,3) r by (simp add: files_loop_append)
  finally show ?thesis .
qed

text \<open>
  Claim C8, as amended. When a descriptor that passes the validation has a name that no
  entry of the supplied file locations carries, the replacement raises and the task is
  left as it was: fileset, pending transfers and dirty markers. The exception is the
  \<open>IndexError\<close> of the empty selection, a \<open>LookupError\<close>, when the descriptors before it have
  been reconciled; when the turn of an earlier descriptor raises after the descriptors
  before that one have been reconciled, the exception is the one of that turn.
\<close>

theorem files_setter_missing_local_file:
  assumes "py_iter v = Inr files" and "i < length files"
    and "validate_file (files ! i) = Inr ()"
    and "py_getitem (files ! i) ''name'' = Inr (PStr n)"
    and "n \<notin> snd ` set fp"
  shows "\<exists>e. files_setter H fs v fp t = (Inl e, t) \<and>
           ((\<exists>r. files_loop H fs (dict_get (obj t) ''files'' (PList [])) fp (take i files) [] []
                  = Inr r) \<longrightarrow> e = IndexError \<and> is_LookupError e) \<and>
           (\<forall>j e'. j < i \<and>
                (\<exists>r. files_loop H fs (dict_get (obj t) ''files'' (PList [])) fp (take j files) [] []
                  = Inr r) \<and>
                files_step H fs (dict_get (obj t) ''files'' (PList [])) fp (files ! j) = Inl e'
              \<longrightarrow> e = e')"
proof -
  let ?old = "dict_get (obj t) ''files'' (PList [])"
  have st: "files_step H fs ?old fp (files ! i) = Inl IndexError"
    using assms(3-5) by (rule files_step_unlocated)
  have "files ! i \<in> set files" using assms(2) by simp
  from files_loop_fails [OF this st] obtain e where
    e: "files_loop H fs ?old fp files [] [] = Inl e" by blast
  have s: "files_setter H fs v fp t = (Inl e, t)"
    using assms(1) e by (rule files_setter_fails)
  have eq: "e = e'" if "files_loop H fs ?old fp files [] [] = Inl e'" for e'
  proof -
    have "Inl e = files_loop H fs ?old fp files [] []" using e by (rule sym)
    also have "\<dots> = Inl e'" by (rule that)
    finally show ?thesis by (rule Inl_inject)
  qed
  have a: "e = IndexError \<and> is_LookupError e"
    if "files_loop H fs ?old fp (take i files) [] [] = Inr r" for r
  proof -
    have "files_loop H fs ?old fp files [] [] = Inl IndexError"
      using assms(2) that st by (rule files_loop_first_failure)
    then have "e = IndexError" by (rule eq)
    then show ?thesis by (simp add: is_LookupError_def)
  qed
  have b: "e = e'"
    if "j < i" "files_loop H fs ?old fp (take j files) [] [] = Inr r"
       "files_step H fs ?old fp (files ! j) = Inl e'" for j r e'
  proof -
    from that(1) assms(2) have "j < length files" by simp
    then have "files_loop H fs ?old fp files [] [] = Inl e'"
      using that(2,3) by (rule files_loop_first_failure)
    then show ?thesis by (rule eq)
  qed
  have a': "(\<exists>r. files_loop H fs ?old fp (take i files) [] [] = Inr r)
              \<longrightarrow> e = IndexError \<and> is_LookupError e"
  proof
    assume "\<exists>r. files_loop H fs ?old fp (take i files) [] [] = Inr r"
    then obtain r where "files_loop H fs ?old fp (take i files) [] [] = Inr r" ..
    then show "e = IndexError \<and> is_LookupError e" by (rule a)
  qed
  have b': "\<forall>j e'. j < i \<and> (\<exists>r. files_loop H fs ?old fp (take j files) [] [] = Inr r) \<and>
                files_step H fs ?old fp (files ! j) = Inl e' \<longrightarrow> e = e'"
  proof (intro allI impI)
    fix j e'
    assume h: "j < i \<and> (\<exists>r. files_loop H fs ?old fp (take j files) [] [] = Inr r) \<and>
                files_step H fs ?old fp (files ! j) = Inl e'"
    then have lt: "j < i" and st': "files_step H fs ?old fp (files ! j) = Inl e'"
      and "\<exists>r. files_loop H fs ?old fp (take j files) [] [] = Inr r" by simp_all
    then obtain r where "files_loop H fs ?old fp (take j files) [] [] = Inr r" by (elim exE)
    with lt show "e = e'" using st' by (rule b)
  qed
  show ?thesis
  proof (intro exI conjI)
    show "files_setter H fs v fp t = (Inl e, t)" by (rule s)
    show "(\<exists>r. files_loop H fs ?old fp (take i files) [] [] = Inr r)
              \<longrightarrow> e = IndexError \<and> is_LookupError e" by (rule a')
    show "\<forall>j e'. j < i \<and> (\<exists>r. files_loop H fs ?old fp (take j files) [] [] = Inr r) \<and>
                files_step H fs ?old fp (files ! j) = Inl e' \<longrightarrow> e = e'" by (rule b')
  qed
qed

text \<open>The same with the descriptor of \<open>y.txt\<close>, which no file location carries, after the
  descriptor of \<open>x.txt\<close>, at a task that holds a fileset and a pending transfer.\<close>

theorem files_setter_missing_local_file_witness:
  "files_setter sha256_table ex_fs (PList [ex_desc, ex_desc_y]) ex_paths ex_task1
     = (Inl IndexError, ex_task1) \<and>
   is_LookupError IndexError \<and>
   validate_file ex_desc_y = Inr () \<and>
   py_getitem ex_desc_y ''name'' = Inr (PStr ''y.txt'') \<and>
   ''y.txt'' \<notin> snd ` set ex_paths"
proof -
  have h1: "py_iter (PList [ex_desc, ex_desc_y]) = Inr [ex_desc, ex_desc_y]" by simp
  have h2: "1 < length [ex_desc, ex_desc_y]" by simp
  have h3: "validate_file ([ex_desc, ex_desc_y] ! 1) = Inr ()" by code_simp
  have h4: "py_getitem ([ex_desc, ex_desc_y] ! 1) ''name'' = Inr (PStr ''y.txt'')" by code_simp
  have h5: "''y.txt'' \<notin> snd ` set ex_paths" by (simp add: ex_paths_def)
  have p: "files_loop sha256_table ex_fs (dict_get (obj ex_task1) ''files'' (PList [])) ex_paths
      (take 1 [ex_desc, ex_desc_y]) [] [] =
      Inr (fileset ex_task1, [])"
    by code_simp
  from files_setter_missing_local_file [OF h1 h2 h3 h4 h5, of sha256_table ex_fs ex_task1]
  obtain e where
    "files_setter sha256_table ex_fs (PList [ex_desc, ex_desc_y]) ex_paths ex_task1 = (Inl e, ex_task1)"
    "(\<exists>r. files_loop sha256_table ex_fs (dict_get (obj ex_task1) ''files'' (PList [])) ex_paths
             (take 1 [ex_desc, ex_desc_y]) [] [] = Inr r) \<longrightarrow> e = IndexError \<and> is_LookupError e"
    by blast
  with p have "files_setter sha256_table ex_fs (PList [ex_desc, ex_desc_y]) ex_paths ex_task1
     = (Inl IndexError, ex_task1) \<and> is_LookupError IndexError"
    by blast
  moreover have "validate_file ex_desc_y = Inr ()"
    "py_getitem ex_desc_y ''name'' = Inr (PStr ''y.txt'')"
    using h3 h4 by simp_all
  ultimately show ?thesis using h5 by simp
qed

text \<open>
  Claim C8 as it was stated fails: with an empty mapping before the descriptor of
  \<open>y.txt\<close>, the validation of the empty mapping raises \<open>ValueError\<close> first, which is no
  \<open>LookupError\<close>. The task is left as it was.
\<close>

theorem files_setter_earlier_failure_counterexample:
  "validate_file ex_desc_y = Inr () \<and>
   py_getitem ex_desc_y ''name'' = Inr (PStr ''y.txt'') \<and>
   ''y.txt'' \<notin> snd ` set ex_paths \<and>
   files_setter sha256_table ex_fs (PList [PDict [], ex_desc_y]) ex_paths ex_task1
     = (Inl ValueError, ex_task1) \<and>
   \<not> is_LookupError ValueError"
  by code_simp


subsection \<open>One turn of the loop\<close>

lemma validate_file_Inr:
  assumes "validate_file file = Inr ()"
  shows "\<exists>fd n. file = PDict fd \<and> map_of fd ''name'' = Some (PStr n)"
proof (cases "is_dict file")
  case False
  from check_key_not_dict [OF this, of "''name''" is_str] assms show ?thesis
    by (auto simp: validate_file_def)
next
  case True
  then obtain fd where fd: "file = PDict fd" by (cases "file") simp_all
  with assms have "holds_at fd ''name'' is_str"
    by (simp add: validate_file_def check_key_dict split: if_splits)
  then obtain x where "map_of fd ''name'' = Some x" "is_str x"
    by (auto simp: holds_at_def split: option.splits)
  then show ?thesis using fd by (cases x) simp_all
qed

lemma old_matches_Inr: "old_matches name hash f = Inr b \<Longrightarrow> b = same_file name hash f"
  by (auto simp: old_matches_def same_file_def entry_attr_def split: sum.splits if_splits)

lemma old_matches_total:
  "entry_attr f ''name'' = Inr a \<Longrightarrow> entry_attr f ''hashSHA256'' = Inr b \<Longrightarrow>
     old_matches name hash f = Inr (same_file name hash f)"
  by (auto simp: old_matches_def same_file_def entry_attr_def split: sum.splits)

lemma filter_err_Inr:
  "filter_err p xs = Inr ys \<Longrightarrow>
     (\<forall>x \<in> set xs. \<exists>b. p x = Inr b) \<and> ys = filter (\<lambda>x. p x = Inr True) xs"
  by (induction xs arbitrary: ys) (auto split: sum.splits)

lemma filter_err_total:
  "\<forall>x \<in> set xs. \<exists>b. p x = Inr b \<Longrightarrow> filter_err p xs = Inr (filter (\<lambda>x. p x = Inr True) xs)"
  by (induction xs) (auto split: sum.splits)

lemma oldfiles_matched_Inr:
  assumes "oldfiles_matched old name hash = Inr ms"
  shows "\<exists>olds. py_iter old = Inr olds \<and> ms = filter (same_file name hash) olds"
proof -
  from assms obtain olds where it: "py_iter old = Inr olds"
    and f: "filter_err (old_matches name hash) olds = Inr ms"
    by (auto simp: oldfiles_matched_def split: sum.splits)
  from filter_err_Inr [OF f]
  have t: "\<forall>x \<in> set olds. \<exists>b. old_matches name hash x = Inr b"
    and ms: "ms = filter (\<lambda>x. old_matches name hash x = Inr True) olds" by auto
  have "filter (\<lambda>x. old_matches name hash x = Inr True) olds = filter (same_file name hash) olds"
  proof (rule filter_cong [OF refl])
    fix x assume "x \<in> set olds"
    with t obtain b where "old_matches name hash x = Inr b" by blast
    then show "(old_matches name hash x = Inr True) = same_file name hash x"
      using old_matches_Inr by fastforce
  qed
  with it ms show ?thesis by simp
qed

lemma oldfiles_matched_total:
  assumes "py_iter old = Inr olds"
    "\<forall>x \<in> set olds. \<exists>a b. entry_attr x ''name'' = Inr a \<and> entry_attr x ''hashSHA256'' = Inr b"
  shows "oldfiles_matched old name hash = Inr (filter (same_file name hash) olds)"
proof -
  have t: "\<forall>x \<in> set olds. old_matches name hash x = Inr (same_file name hash x)"
    using assms(2) old_matches_total by blast
  then have "filter_err (old_matches name hash) olds =
      Inr (filter (\<lambda>x. old_matches name hash x = Inr True) olds)"
    by (intro filter_err_total) auto
  moreover have "filter (\<lambda>x. old_matches name hash x = Inr True) olds
      = filter (same_file name hash) olds"
    using t by (intro filter_cong [OF refl]) auto
  ultimately show ?thesis using assms(1) by (simp add: oldfiles_matched_def)
qed

lemma overlay_Inr:
  assumes "overlay m (PDict fd) = Inr nf"
  shows "\<exists>md dd ad. m = PDict md \<and> map_of md ''data'' = Some (PDict dd) \<and>
           map_of dd ''attributes'' = Some (PDict ad) \<and>
           nf = PDict (AList.update ''data''
                  (PDict (AList.update ''attributes'' (PDict (dict_update ad fd)) dd)) md)"
  using assms by (auto simp: overlay_def split: pyval.splits option.splits)

lemma overlay_attr:
  assumes "overlay m (PDict fd) = Inr nf" "distinct (map fst fd)"
  shows "entry_attr nf k = (case map_of fd k of Some x \<Rightarrow> Inr x | None \<Rightarrow> entry_attr m k)"
proof -
  from overlay_Inr [OF assms(1)] obtain md dd ad where
    "m = PDict md" "map_of md ''data'' = Some (PDict dd)"
    "map_of dd ''attributes'' = Some (PDict ad)"
    "nf = PDict (AList.update ''data''
                  (PDict (AList.update ''attributes'' (PDict (dict_update ad fd)) dd)) md)"
    by blast
  then show ?thesis
    by (simp add: entry_attr_def update_conv' map_of_dict_update [OF assms(2)]
        split: option.splits)
qed

lemma overlay_top:
  assumes "overlay m (PDict fd) = Inr nf" "k \<noteq> ''data''"
  shows "py_getitem nf k = py_getitem m k"
proof -
  from overlay_Inr [OF assms(1)] obtain md dd ad where
    "m = PDict md"
    "nf = PDict (AList.update ''data''
                  (PDict (AList.update ''attributes'' (PDict (dict_update ad fd)) dd)) md)"
    by blast
  then show ?thesis using assms(2) by (simp add: update_conv')
qed

lemma overlay_total:
  assumes "entry_attr m k = Inr x"
  shows "\<exists>nf. overlay m (PDict fd) = Inr nf"
proof -
  from assms obtain md where m: "m = PDict md"
    by (cases m) (simp_all add: entry_attr_def)
  from assms m obtain d where d: "map_of md ''data'' = Some d"
    by (auto simp: entry_attr_def split: option.splits)
  from assms m d obtain dd where dd: "d = PDict dd"
    by (cases d) (simp_all add: entry_attr_def)
  from assms m d dd obtain a where a: "map_of dd ''attributes'' = Some a"
    by (auto simp: entry_attr_def split: option.splits)
  from assms m d dd a obtain ad where "a = PDict ad"
    by (cases a) (simp_all add: entry_attr_def)
  with m d dd a show ?thesis by (simp add: overlay_def)
qed

lemma mint_attr:
  assumes "distinct (map fst fd)"
  shows "entry_attr (mint h lf fd) k =
     (case map_of fd k of Some x \<Rightarrow> Inr x
      | None \<Rightarrow> py_getitem (PDict [(''hashSHA256'', PStr h), (''size'', PInt (getsize lf)),
                  (''lastModified'', PInt (getmtime_ms lf))]) k)"
  by (simp add: mint_def entry_attr_def map_of_dict_update [OF assms] split: option.splits)

lemma mint_top: "py_getitem (mint h lf fd) ''links'' = Inl KeyError"
  by (simp add: mint_def)

text \<open>What a turn of the loop that returns has done.\<close>

lemma files_step_Inr:
  assumes "files_step H fs old fp file = Inr (nf, tr)"
  shows "\<exists>fd n filepath rest lf olds.
     file = PDict fd \<and> map_of fd ''name'' = Some (PStr n) \<and>
     locate fp (PStr n) = filepath # rest \<and> fs filepath = Some lf \<and>
     py_iter old = Inr olds \<and>
     (case filter (same_file (PStr n) (H (content lf))) olds of
        [] \<Rightarrow> nf = mint (H (content lf)) lf fd \<and>
               tr = [PTuple [PStr n, PStr (H (content lf)), PStr filepath]]
      | m # others \<Rightarrow> overlay m file = Inr nf \<and> tr = [])"
proof -
  from assms have v: "validate_file file = Inr ()"
    by (cases "validate_file file") (simp_all add: files_step_def)
  from validate_file_Inr [OF v] obtain fd n where
    fd: "file = PDict fd" and n: "map_of fd ''name'' = Some (PStr n)" by blast
  from assms v fd n obtain filepath rest where l: "locate fp (PStr n) = filepath # rest"
    by (cases "locate fp (PStr n)") (simp_all add: files_step_def)
  from assms v fd n l obtain lf where lf: "fs filepath = Some lf"
    by (cases "fs filepath") (simp_all add: files_step_def)
  from assms v fd n l lf obtain ms where
    ms: "oldfiles_matched old (PStr n) (H (content lf)) = Inr ms"
    by (cases "oldfiles_matched old (PStr n) (H (content lf))")
       (simp_all add: files_step_def Let_def)
  from oldfiles_matched_Inr [OF ms] obtain olds where
    it: "py_iter old = Inr olds"
    and f: "ms = filter (same_file (PStr n) (H (content lf))) olds" by blast
  have "case ms of
        [] \<Rightarrow> nf = mint (H (content lf)) lf fd \<and>
               tr = [PTuple [PStr n, PStr (H (content lf)), PStr filepath]]
      | m # others \<Rightarrow> overlay m file = Inr nf \<and> tr = []"
    using assms v fd n l lf ms
    by (cases ms) (auto simp: files_step_def Let_def split: sum.splits)
  with fd n l lf it f show ?thesis by auto
qed

lemma files_step_name:
  assumes "files_step H fs old fp file = Inr (nf, tr)" "keys_distinct file"
  shows "entry_attr nf ''name'' = py_getitem file ''name''"
proof -
  from files_step_Inr [OF assms(1)] obtain fd n filepath rest lf olds where
    fd: "file = PDict fd" and n: "map_of fd ''name'' = Some (PStr n)"
    and c: "case filter (same_file (PStr n) (H (content lf))) olds of
        [] \<Rightarrow> nf = mint (H (content lf)) lf fd \<and>
               tr = [PTuple [PStr n, PStr (H (content lf)), PStr filepath]]
      | m # others \<Rightarrow> overlay m file = Inr nf \<and> tr = []"
    by blast
  have d: "distinct (map fst fd)" using assms(2) fd by simp
  show ?thesis
  proof (cases "filter (same_file (PStr n) (H (content lf))) olds")
    case Nil
    with c have "nf = mint (H (content lf)) lf fd" by simp
    then show ?thesis using n fd by (simp add: mint_attr [OF d])
  next
    case (Cons m others)
    with c fd have "overlay m (PDict fd) = Inr nf" by simp
    from overlay_attr [OF this d, of "''name''"] n fd show ?thesis by simp
  qed
qed

lemma files_setter_returns_iff:
  assumes "py_iter v = Inr files"
  shows "(\<exists>t'. files_setter H fs v fp t = (Inr (), t')) =
         (\<forall>file \<in> set files. \<exists>r.
            files_step H fs (dict_get (obj t) ''files'' (PList [])) fp file = Inr r)"
proof
  let ?old = "dict_get (obj t) ''files'' (PList [])"
  assume "\<exists>t'. files_setter H fs v fp t = (Inr (), t')"
  then obtain t' where "files_setter H fs v fp t = (Inr (), t')" by blast
  from files_setter_Inr [OF this] assms obtain newfiles tr where
    "files_loop H fs ?old fp files [] [] = Inr (newfiles, tr)" by auto
  then obtain rs where "map (files_step H fs ?old fp) files = map Inr rs"
    unfolding files_loop_Inr_iff by blast
  then show "\<forall>file \<in> set files. \<exists>r. files_step H fs ?old fp file = Inr r"
    using map_Inr_D by fast
next
  let ?old = "dict_get (obj t) ''files'' (PList [])"
  assume "\<forall>file \<in> set files. \<exists>r. files_step H fs ?old fp file = Inr r"
  from map_Inr_I [OF this] obtain rs where
    "map (files_step H fs ?old fp) files = map Inr rs" by blast
  then have "files_loop H fs ?old fp files [] [] = Inr ([] @ map fst rs, [] @ concat (map snd rs))"
    unfolding files_loop_Inr_iff by blast
  with assms show "\<exists>t'. files_setter H fs v fp t = (Inr (), t')"
    by (simp add: files_setter_def)
qed

text \<open>The results of the turns of a replacement that returned.\<close>

lemma files_setter_results:
  assumes "files_setter H fs v fp t = (Inr (), t')" "py_iter v = Inr files"
  shows "\<exists>rs. map (files_step H fs (dict_get (obj t) ''files'' (PList [])) fp) files = map Inr rs \<and>
     map_of (obj t') ''files'' = Some (PList (map fst rs)) \<and>
     map_of (obj t') ''files_data'' = Some (PList (concat (map snd rs))) \<and>
     is_changed t' ''files''"
proof -
  from files_setter_Inr [OF assms(1)] assms(2) obtain newfiles tr where
    lp: "files_loop H fs (dict_get (obj t) ''files'' (PList [])) fp files [] [] = Inr (newfiles, tr)"
    and t': "t' = t\<lparr>obj := AList.update ''files_data'' (PList tr)
                            (AList.update ''files'' (PList newfiles) (obj t)),
                  changed := AList.update ''files'' True (changed t)\<rparr>"
    by auto
  from lp obtain rs where
    "map (files_step H fs (dict_get (obj t) ''files'' (PList [])) fp) files = map Inr rs"
    "newfiles = map fst rs" "tr = concat (map snd rs)"
    unfolding files_loop_Inr_iff by auto
  with t' show ?thesis by (simp add: update_conv' is_changed_def)
qed

lemma find_filter: "find P xs = Some x \<Longrightarrow> \<exists>ys. filter P xs = x # ys"
  by (induction xs) (auto split: if_splits)

text \<open>The turns of a replacement that returned, one for each descriptor.\<close>

lemma files_setter_turns:
  assumes "files_setter H fs v fp t = (Inr (), t')" and "py_iter v = Inr files"
  shows "\<exists>rs. map (files_step H fs (dict_get (obj t) ''files'' (PList [])) fp) files = map Inr rs \<and>
     length rs = length files \<and>
     map_of (obj t') ''files'' = Some (PList (map fst rs)) \<and>
     map_of (obj t') ''files_data'' = Some (PList (concat (map snd rs))) \<and>
     (\<forall>j < length files.
        files_step H fs (dict_get (obj t) ''files'' (PList [])) fp (files ! j)
          = Inr (fst (rs ! j), snd (rs ! j)))"
proof -
  let ?old = "dict_get (obj t) ''files'' (PList [])"
  from files_setter_results [OF assms] obtain rs where
    m: "map (files_step H fs ?old fp) files = map Inr rs"
    and f: "map_of (obj t') ''files'' = Some (PList (map fst rs))"
       "map_of (obj t') ''files_data'' = Some (PList (concat (map snd rs)))" by blast
  from m have "length (map (files_step H fs ?old fp) files) = length (map Inr rs)" by simp
  then have len: "length rs = length files" by simp
  have "files_step H fs ?old fp (files ! j) = Inr (fst (rs ! j), snd (rs ! j))"
    if "j < length files" for j
  proof -
    from m have "map (files_step H fs ?old fp) files ! j = map Inr rs ! j" by simp
    with that len show ?thesis by simp
  qed
  with m len f show ?thesis by blast
qed

text \<open>The transfer of a turn: the tuple of the descriptor's name when no old entry has the
  name and the digest, nothing otherwise.\<close>

lemma files_step_transfer:
  assumes "files_step H fs old fp d = Inr (nf, tr)"
    and "locate fp name = filepath # rest" and "fs filepath = Some lf"
    and "py_iter old = Inr olds"
  shows "py_getitem d ''name'' = Inr name \<Longrightarrow>
           tr = (if filter (same_file name (H (content lf))) olds = [] then
                   [PTuple [name, PStr (H (content lf)), PStr filepath]] else [])"
    and "py_getitem d ''name'' \<noteq> Inr name \<Longrightarrow> PTuple [name, h, p] \<notin> set tr"
proof -
  from files_step_Inr [OF assms(1)] obtain fd n fp' rest' lf' olds' where
    1: "d = PDict fd" "map_of fd ''name'' = Some (PStr n)"
       "locate fp (PStr n) = fp' # rest'" "fs fp' = Some lf'" "py_iter old = Inr olds'"
    and c: "case filter (same_file (PStr n) (H (content lf'))) olds' of
        [] \<Rightarrow> nf = mint (H (content lf')) lf' fd \<and>
               tr = [PTuple [PStr n, PStr (H (content lf')), PStr fp']]
      | m # others \<Rightarrow> overlay m d = Inr nf \<and> tr = []"
    by blast
  have nm: "py_getitem d ''name'' = Inr (PStr n)" using 1 by simp
  show "tr = (if filter (same_file name (H (content lf))) olds = [] then
                   [PTuple [name, PStr (H (content lf)), PStr filepath]] else [])"
    if "py_getitem d ''name'' = Inr name"
  proof -
    from that nm have "name = PStr n" by simp
    with 1 assms(2-4) have e: "fp' = filepath" "lf' = lf" "olds' = olds" by auto
    show ?thesis
      using c e \<open>name = PStr n\<close>
      by (cases "filter (same_file name (H (content lf))) olds") auto
  qed
  show "PTuple [name, h, p] \<notin> set tr" if "py_getitem d ''name'' \<noteq> Inr name"
  proof -
    from that nm have "name \<noteq> PStr n" by auto
    then show ?thesis
      using c by (cases "filter (same_file (PStr n) (H (content lf'))) olds'") auto
  qed
qed

lemma count_list_turns:
  assumes "map f ds = map Inr rs"
    and "\<And>d nf tr. d \<in> set ds \<Longrightarrow> f d = Inr (nf, tr) \<Longrightarrow>
           count_list tr x = (if P d then 1 else 0)"
  shows "count_list (concat (map snd rs)) x = length (filter P ds)"
  using assms
proof (induction ds arbitrary: rs)
  case Nil
  then show ?case by simp
next
  case (Cons d ds)
  from Cons.prems(1) obtain r rs' where rs: "rs = r # rs'" and fd: "f d = Inr r"
    and m: "map f ds = map Inr rs'"
    by (cases rs) auto
  have "d \<in> set (d # ds)" "f d = Inr (fst r, snd r)" using fd by simp_all
  then have c: "count_list (snd r) x = (if P d then 1 else 0)"
    by (rule Cons.prems(2))
  have "count_list (concat (map snd rs')) x = length (filter P ds)"
    using m Cons.prems(2) by (intro Cons.IH) auto
  with c rs show ?case by simp
qed

lemma files_step_valid: "files_step H fs old fp d = Inr r \<Longrightarrow> validate_file d = Inr ()"
  by (cases "validate_file d") (simp_all add: files_step_def)

lemma same_file_attrs:
  "same_file name hash x \<Longrightarrow>
     \<exists>a b. entry_attr x ''name'' = Inr a \<and> entry_attr x ''hashSHA256'' = Inr b"
  by (simp add: same_file_def)

text \<open>The entry that a turn appends has the name of the descriptor and, when the
  descriptor has no key \<open>hashSHA256\<close> of its own, the digest of the local file.\<close>

lemma files_step_same_file:
  assumes "files_step H fs old fp d = Inr (nf, tr)" "keys_distinct d"
    "py_in ''hashSHA256'' d = Inr False"
  shows "\<exists>n filepath rest lf. py_getitem d ''name'' = Inr (PStr n) \<and>
     locate fp (PStr n) = filepath # rest \<and> fs filepath = Some lf \<and>
     same_file (PStr n) (H (content lf)) nf"
proof -
  from files_step_Inr [OF assms(1)] obtain fd n filepath rest lf olds where
    fd: "d = PDict fd" and n: "map_of fd ''name'' = Some (PStr n)"
    and l: "locate fp (PStr n) = filepath # rest" "fs filepath = Some lf"
    and c: "case filter (same_file (PStr n) (H (content lf))) olds of
        [] \<Rightarrow> nf = mint (H (content lf)) lf fd \<and>
               tr = [PTuple [PStr n, PStr (H (content lf)), PStr filepath]]
      | m # others \<Rightarrow> overlay m d = Inr nf \<and> tr = []"
    by blast
  have dist: "distinct (map fst fd)" using assms(2) fd by simp
  have nh: "map_of fd ''hashSHA256'' = None" using assms(3) fd by simp
  have "same_file (PStr n) (H (content lf)) nf"
  proof (cases "filter (same_file (PStr n) (H (content lf))) olds")
    case Nil
    with c have "nf = mint (H (content lf)) lf fd" by simp
    then show ?thesis using n nh by (simp add: same_file_def mint_attr [OF dist])
  next
    case (Cons m others)
    with c fd have ov: "overlay m (PDict fd) = Inr nf" by simp
    have "m \<in> set (filter (same_file (PStr n) (H (content lf))) olds)"
      using Cons by simp
    then have "same_file (PStr n) (H (content lf)) m" by simp
    then show ?thesis
      using n nh by (simp add: same_file_def overlay_attr [OF ov dist])
  qed
  with fd n l show ?thesis by auto
qed

text \<open>A turn against a fileset that holds an entry of the same name and digest.\<close>

lemma files_step_again:
  assumes "validate_file d = Inr ()" "py_getitem d ''name'' = Inr (PStr n)"
    "locate fp (PStr n) = filepath # rest" "fs filepath = Some lf"
    "\<forall>x \<in> set es. \<exists>a b. entry_attr x ''name'' = Inr a \<and> entry_attr x ''hashSHA256'' = Inr b"
    "e \<in> set es" "same_file (PStr n) (H (content lf)) e"
  shows "\<exists>nf. files_step H fs (PList es) fp d = Inr (nf, [])"
proof -
  from validate_file_Inr [OF assms(1)] obtain fd where fd: "d = PDict fd" by blast
  have m: "oldfiles_matched (PList es) (PStr n) (H (content lf))
      = Inr (filter (same_file (PStr n) (H (content lf))) es)"
    by (rule oldfiles_matched_total [OF _ assms(5)]) simp
  have "e \<in> set (filter (same_file (PStr n) (H (content lf))) es)"
    using assms(6,7) by simp
  then obtain m0 others where f: "filter (same_file (PStr n) (H (content lf))) es = m0 # others"
    by (cases "filter (same_file (PStr n) (H (content lf))) es") auto
  then have "m0 \<in> set (filter (same_file (PStr n) (H (content lf))) es)" by simp
  then have "m0 \<in> set es" by simp
  with assms(5) obtain a where "entry_attr m0 ''name'' = Inr a" by blast
  from overlay_total [OF this] obtain nf where "overlay m0 (PDict fd) = Inr nf" by blast
  then have "files_step H fs (PList es) fp d = Inr (nf, [])"
    using assms(1-4) m f fd by (simp add: files_step_def)
  then show ?thesis by blast
qed

lemma map_Inr_no_transfers:
  "\<forall>x \<in> set xs. \<exists>nf. f x = Inr (nf, []) \<Longrightarrow>
     \<exists>rs. map f xs = map Inr rs \<and> concat (map snd rs) = []"
proof (induction xs)
  case Nil
  then show ?case by simp
next
  case (Cons x xs)
  then obtain nf rs where "f x = Inr (nf, [])" "map f xs = map Inr rs"
    "concat (map snd rs) = []" by auto
  then have "map f (x # xs) = map Inr ((nf, []) # rs) \<and> concat (map snd ((nf, []) # rs)) = []"
    by simp
  then show ?case by blast
qed


subsection \<open>Reconciliation\<close>

text \<open>
  Claim C1, as amended. For a descriptor whose local file has the name and the digest of
  an old entry, the turn of the loop for that descriptor appends the first such old
  entry with every key of the descriptor assigned in its attributes, and appends no
  transfer; the pending transfers, which are the transfers of the turns in order, hold
  no tuple of that name at all. The keys of the entry beside \<open>data\<close>, the reference to the
  remote copy among them, are those of the old entry; an attribute is the one of the old
  entry exactly when the descriptor has no key of that name. So a descriptor with only
  \<open>name\<close>, \<open>type\<close>, \<open>importType\<close>, \<open>preload\<close>, \<open>priority\<close> keeps digest, size and timestamp.
\<close>

theorem files_setter_reuses_matching_entry:
  assumes "files_setter H fs v fp t = (Inr (), t')"
    and "py_iter v = Inr files" and "i < length files"
    and "files ! i = PDict fd" and "distinct (map fst fd)"
    and "map_of fd ''name'' = Some name"
    and "locate fp name = filepath # rest" and "fs filepath = Some lf"
    and "py_iter (dict_get (obj t) ''files'' (PList [])) = Inr olds"
    and "find (same_file name (H (content lf))) olds = Some old"
  shows "\<exists>rs.
     map (files_step H fs (dict_get (obj t) ''files'' (PList [])) fp) files = map Inr rs \<and>
     length rs = length files \<and>
     map_of (obj t') ''files'' = Some (PList (map fst rs)) \<and>
     map_of (obj t') ''files_data'' = Some (PList (concat (map snd rs))) \<and>
     overlay old (PDict fd) = Inr (fst (rs ! i)) \<and> snd (rs ! i) = [] \<and>
     (\<forall>k. k \<noteq> ''data'' \<longrightarrow> py_getitem (fst (rs ! i)) k = py_getitem old k) \<and>
     (\<forall>k. entry_attr (fst (rs ! i)) k =
        (case map_of fd k of Some x \<Rightarrow> Inr x | None \<Rightarrow> entry_attr old k)) \<and>
     (\<forall>hash path. PTuple [name, hash, path] \<notin> set (concat (map snd rs)))"
proof -
  let ?old = "dict_get (obj t) ''files'' (PList [])"
  from files_setter_turns [OF assms(1,2)] obtain rs where
    m: "map (files_step H fs ?old fp) files = map Inr rs"
    and len: "length rs = length files"
    and f: "map_of (obj t') ''files'' = Some (PList (map fst rs))"
    and d: "map_of (obj t') ''files_data'' = Some (PList (concat (map snd rs)))"
    and turn: "\<forall>j < length files.
        files_step H fs ?old fp (files ! j) = Inr (fst (rs ! j), snd (rs ! j))" by blast
  from find_filter [OF assms(10)] obtain ys where
    fl: "filter (same_file name (H (content lf))) olds = old # ys" by blast
  have st: "files_step H fs ?old fp (files ! i) = Inr (fst (rs ! i), snd (rs ! i))"
    using turn assms(3) by simp
  from files_step_Inr [OF st] obtain fd' n fp' rest' lf' olds' where
    1: "files ! i = PDict fd'" "map_of fd' ''name'' = Some (PStr n)"
       "locate fp (PStr n) = fp' # rest'" "fs fp' = Some lf'" "py_iter ?old = Inr olds'"
    and c: "case filter (same_file (PStr n) (H (content lf'))) olds' of
        [] \<Rightarrow> fst (rs ! i) = mint (H (content lf')) lf' fd' \<and>
               snd (rs ! i) = [PTuple [PStr n, PStr (H (content lf')), PStr fp']]
      | m # others \<Rightarrow> overlay m (files ! i) = Inr (fst (rs ! i)) \<and> snd (rs ! i) = []"
    by blast
  from 1 assms(4,6,7,8,9) have e: "fd' = fd" "name = PStr n" "fp' = filepath" "lf' = lf" "olds' = olds"
    by auto
  from c e fl assms(4) have ov: "overlay old (PDict fd) = Inr (fst (rs ! i))"
    and tr: "snd (rs ! i) = []"
    by auto
  have a: "\<forall>k. k \<noteq> ''data'' \<longrightarrow> py_getitem (fst (rs ! i)) k = py_getitem old k"
    using overlay_top [OF ov] by blast
  have b: "\<forall>k. entry_attr (fst (rs ! i)) k =
        (case map_of fd k of Some x \<Rightarrow> Inr x | None \<Rightarrow> entry_attr old k)"
    using overlay_attr [OF ov assms(5)] by blast
  have no: "PTuple [name, hash, path] \<notin> set (concat (map snd rs))" for hash path
  proof
    assume "PTuple [name, hash, path] \<in> set (concat (map snd rs))"
    then obtain r where "r \<in> set rs" and mr: "PTuple [name, hash, path] \<in> set (snd r)"
      by auto
    then obtain j where j: "j < length rs" and "r = rs ! j"
      by (auto simp: in_set_conv_nth)
    with mr have mem: "PTuple [name, hash, path] \<in> set (snd (rs ! j))" by simp
    have sj: "files_step H fs ?old fp (files ! j) = Inr (fst (rs ! j), snd (rs ! j))"
      using turn j len by simp
    show False
    proof (cases "py_getitem (files ! j) ''name'' = Inr name")
      case True
      from files_step_transfer(1) [OF sj assms(7,8,9) True] fl have "snd (rs ! j) = []" by simp
      with mem show False by simp
    next
      case False
      from files_step_transfer(2) [OF sj assms(7,8,9) False] mem show False by blast
    qed
  qed
  have g: "map (files_step H fs ?old fp) files = map Inr rs \<and>
     length rs = length files \<and>
     map_of (obj t') ''files'' = Some (PList (map fst rs)) \<and>
     map_of (obj t') ''files_data'' = Some (PList (concat (map snd rs))) \<and>
     overlay old (PDict fd) = Inr (fst (rs ! i)) \<and> snd (rs ! i) = [] \<and>
     (\<forall>k. k \<noteq> ''data'' \<longrightarrow> py_getitem (fst (rs ! i)) k = py_getitem old k) \<and>
     (\<forall>k. entry_attr (fst (rs ! i)) k =
        (case map_of fd k of Some x \<Rightarrow> Inr x | None \<Rightarrow> entry_attr old k)) \<and>
     (\<forall>hash path. PTuple [name, hash, path] \<notin> set (concat (map snd rs)))"
    using m len f d ov tr a b no by simp
  show ?thesis by (rule exI [of _ rs]) (rule g)
qed

text \<open>The same at two descriptors: a new file \<open>z.txt\<close>, which leaves a transfer, and then
  \<open>x.txt\<close>, whose old entry is reused with another preload flag and priority.\<close>

theorem files_setter_reuses_matching_entry_witness:
  "(\<exists>rs.
     map (files_step sha256_table ex_fs2 (dict_get (obj ex_task_old) ''files'' (PList [])) ex_paths2)
       [PDict ex_fd_z, PDict ex_fd_prio] = map Inr rs \<and>
     length rs = length [PDict ex_fd_z, PDict ex_fd_prio] \<and>
     map_of (obj ex_task_two) ''files'' = Some (PList (map fst rs)) \<and>
     map_of (obj ex_task_two) ''files_data'' = Some (PList (concat (map snd rs))) \<and>
     overlay ex_old_entry (PDict ex_fd_prio) = Inr (fst (rs ! 1)) \<and> snd (rs ! 1) = [] \<and>
     (\<forall>k. k \<noteq> ''data'' \<longrightarrow> py_getitem (fst (rs ! 1)) k = py_getitem ex_old_entry k) \<and>
     (\<forall>k. entry_attr (fst (rs ! 1)) k =
        (case map_of ex_fd_prio k of Some x \<Rightarrow> Inr x | None \<Rightarrow> entry_attr ex_old_entry k)) \<and>
     (\<forall>hash path. PTuple [PStr ''x.txt'', hash, path] \<notin> set (concat (map snd rs)))) \<and>
   fst (get_data_files ex_task_two) =
     PList [PTuple [PStr ''z.txt'',
       PStr ''e3b0c44298fc1c149afbf4c8996fb92427ae41e4649b934ca495991b7852b855'',
       PStr ''files/z.txt'']] \<and>
   entry_attr (fileset ex_task_two ! 1) ''priority'' = Inr (PInt 5) \<and>
   entry_attr (fileset ex_task_two ! 1) ''size'' = Inr (PInt 3) \<and>
   py_getitem (fileset ex_task_two ! 1) ''links'' = py_getitem ex_old_entry ''links''"
proof -
  have h1: "files_setter sha256_table ex_fs2 (PList [PDict ex_fd_z, PDict ex_fd_prio]) ex_paths2
      ex_task_old = (Inr (), ex_task_two)" by code_simp
  have h2: "py_iter (PList [PDict ex_fd_z, PDict ex_fd_prio]) = Inr [PDict ex_fd_z, PDict ex_fd_prio]"
    by simp
  have h3: "1 < length [PDict ex_fd_z, PDict ex_fd_prio]" by simp
  have h4: "[PDict ex_fd_z, PDict ex_fd_prio] ! 1 = PDict ex_fd_prio" by simp
  have h5: "distinct (map fst ex_fd_prio)" by code_simp
  have h6: "map_of ex_fd_prio ''name'' = Some (PStr ''x.txt'')" by code_simp
  have h7: "locate ex_paths2 (PStr ''x.txt'') = ''files/x.txt'' # []" by code_simp
  have h8: "ex_fs2 ''files/x.txt'' = Some ex_lf" by code_simp
  have h9: "py_iter (dict_get (obj ex_task_old) ''files'' (PList [])) = Inr [ex_old_entry]"
    by code_simp
  have h10: "find (same_file (PStr ''x.txt'') (sha256_table (content ex_lf))) [ex_old_entry]
      = Some ex_old_entry" by code_simp
  have c: "fst (get_data_files ex_task_two) =
     PList [PTuple [PStr ''z.txt'',
       PStr ''e3b0c44298fc1c149afbf4c8996fb92427ae41e4649b934ca495991b7852b855'',
       PStr ''files/z.txt'']]"
    "entry_attr (fileset ex_task_two ! 1) ''priority'' = Inr (PInt 5)"
    "entry_attr (fileset ex_task_two ! 1) ''size'' = Inr (PInt 3)"
    "py_getitem (fileset ex_task_two ! 1) ''links'' = py_getitem ex_old_entry ''links''"
    by code_simp+
  show ?thesis
    by (intro conjI c)
       (rule files_setter_reuses_matching_entry [OF h1 h2 h3 h4 h5 h6 h7 h8 h9 h10])
qed

text \<open>
  Claim C1 as it was stated fails: a descriptor that carries a key \<open>size\<close> beside the five
  editable ones passes the validation, and the size of the reused entry is then the
  size the descriptor gives, not the size of the old entry.
\<close>

theorem files_setter_overlays_size_counterexample:
  "files_setter sha256_table ex_fs (PList [ex_desc_size]) ex_paths ex_task_old
     = (Inr (), ex_task_size) \<and>
   fileset ex_task_old = [ex_old_entry] \<and>
   same_file (PStr ''x.txt'') (sha256_table (content ex_lf)) ex_old_entry \<and>
   ex_fs ''files/x.txt'' = Some ex_lf \<and>
   entry_attr ex_old_entry ''size'' = Inr (PInt 3) \<and>
   entry_attr (fileset ex_task_size ! 0) ''size'' = Inr (PInt 0)"
  by code_simp

text \<open>
  Claim C2, as amended. For a descriptor whose local file has not both the name and the
  digest of any old entry, the turn of the loop for that descriptor appends a new entry
  without a reference to a remote copy, and appends exactly the tuple of its name, the
  digest and the local path; the pending transfers, which are the transfers of the turns
  in order, hold that tuple once for each descriptor of that name. The new entry carries
  every key of the descriptor, and the computed digest, size and timestamp, each unless
  the descriptor has a key of that name.
\<close>

theorem files_setter_mints_unmatched_entry:
  assumes "files_setter H fs v fp t = (Inr (), t')"
    and "py_iter v = Inr files" and "i < length files"
    and "files ! i = PDict fd" and "distinct (map fst fd)"
    and "map_of fd ''name'' = Some name"
    and "locate fp name = filepath # rest" and "fs filepath = Some lf"
    and "py_iter (dict_get (obj t) ''files'' (PList [])) = Inr olds"
    and "\<forall>old \<in> set olds. \<not> same_file name (H (content lf)) old"
  shows "\<exists>rs.
     map (files_step H fs (dict_get (obj t) ''files'' (PList [])) fp) files = map Inr rs \<and>
     length rs = length files \<and>
     map_of (obj t') ''files'' = Some (PList (map fst rs)) \<and>
     map_of (obj t') ''files_data'' = Some (PList (concat (map snd rs))) \<and>
     fst (rs ! i) = mint (H (content lf)) lf fd \<and>
     snd (rs ! i) = [PTuple [name, PStr (H (content lf)), PStr filepath]] \<and>
     count_list (concat (map snd rs)) (PTuple [name, PStr (H (content lf)), PStr filepath])
       = length (filter (\<lambda>d. py_getitem d ''name'' = Inr name) files) \<and>
     py_getitem (fst (rs ! i)) ''links'' = Inl KeyError \<and>
     (\<forall>k x. map_of fd k = Some x \<longrightarrow> entry_attr (fst (rs ! i)) k = Inr x) \<and>
     (map_of fd ''hashSHA256'' = None \<longrightarrow>
        entry_attr (fst (rs ! i)) ''hashSHA256'' = Inr (PStr (H (content lf)))) \<and>
     (map_of fd ''size'' = None \<longrightarrow>
        entry_attr (fst (rs ! i)) ''size'' = Inr (PInt (getsize lf))) \<and>
     (map_of fd ''lastModified'' = None \<longrightarrow>
        entry_attr (fst (rs ! i)) ''lastModified'' = Inr (PInt (getmtime_ms lf)))"
proof -
  let ?old = "dict_get (obj t) ''files'' (PList [])"
  let ?tuple = "PTuple [name, PStr (H (content lf)), PStr filepath]"
  from files_setter_turns [OF assms(1,2)] obtain rs where
    m: "map (files_step H fs ?old fp) files = map Inr rs"
    and len: "length rs = length files"
    and f: "map_of (obj t') ''files'' = Some (PList (map fst rs))"
    and d: "map_of (obj t') ''files_data'' = Some (PList (concat (map snd rs)))"
    and turn: "\<forall>j < length files.
        files_step H fs ?old fp (files ! j) = Inr (fst (rs ! j), snd (rs ! j))" by blast
  from assms(10) have fl: "filter (same_file name (H (content lf))) olds = []"
    by (simp add: filter_empty_conv)
  have st: "files_step H fs ?old fp (files ! i) = Inr (fst (rs ! i), snd (rs ! i))"
    using turn assms(3) by simp
  from files_step_Inr [OF st] obtain fd' n fp' rest' lf' olds' where
    1: "files ! i = PDict fd'" "map_of fd' ''name'' = Some (PStr n)"
       "locate fp (PStr n) = fp' # rest'" "fs fp' = Some lf'" "py_iter ?old = Inr olds'"
    and c: "case filter (same_file (PStr n) (H (content lf'))) olds' of
        [] \<Rightarrow> fst (rs ! i) = mint (H (content lf')) lf' fd' \<and>
               snd (rs ! i) = [PTuple [PStr n, PStr (H (content lf')), PStr fp']]
      | m # others \<Rightarrow> overlay m (files ! i) = Inr (fst (rs ! i)) \<and> snd (rs ! i) = []"
    by blast
  from 1 assms(4,6,7,8,9) have e: "fd' = fd" "name = PStr n" "fp' = filepath" "lf' = lf" "olds' = olds"
    by auto
  from c e fl have mi: "fst (rs ! i) = mint (H (content lf)) lf fd"
    and tr: "snd (rs ! i) = [?tuple]"
    by auto
  have cnt: "count_list (concat (map snd rs)) ?tuple
       = length (filter (\<lambda>d. py_getitem d ''name'' = Inr name) files)"
  proof (rule count_list_turns [OF m])
    fix d nf tr' assume "d \<in> set files" and sd: "files_step H fs ?old fp d = Inr (nf, tr')"
    show "count_list tr' ?tuple = (if py_getitem d ''name'' = Inr name then 1 else 0)"
    proof (cases "py_getitem d ''name'' = Inr name")
      case True
      from files_step_transfer(1) [OF sd assms(7,8,9) True] fl True show ?thesis by simp
    next
      case False
      from files_step_transfer(2) [OF sd assms(7,8,9) False] False show ?thesis
        by (simp add: count_list_0_iff)
    qed
  qed
  note ma = mint_attr [OF assms(5), of "H (content lf)" lf]
  have g: "map (files_step H fs ?old fp) files = map Inr rs \<and>
     length rs = length files \<and>
     map_of (obj t') ''files'' = Some (PList (map fst rs)) \<and>
     map_of (obj t') ''files_data'' = Some (PList (concat (map snd rs))) \<and>
     fst (rs ! i) = mint (H (content lf)) lf fd \<and>
     snd (rs ! i) = [?tuple] \<and>
     count_list (concat (map snd rs)) ?tuple
       = length (filter (\<lambda>d. py_getitem d ''name'' = Inr name) files) \<and>
     py_getitem (fst (rs ! i)) ''links'' = Inl KeyError \<and>
     (\<forall>k x. map_of fd k = Some x \<longrightarrow> entry_attr (fst (rs ! i)) k = Inr x) \<and>
     (map_of fd ''hashSHA256'' = None \<longrightarrow>
        entry_attr (fst (rs ! i)) ''hashSHA256'' = Inr (PStr (H (content lf)))) \<and>
     (map_of fd ''size'' = None \<longrightarrow>
        entry_attr (fst (rs ! i)) ''size'' = Inr (PInt (getsize lf))) \<and>
     (map_of fd ''lastModified'' = None \<longrightarrow>
        entry_attr (fst (rs ! i)) ''lastModified'' = Inr (PInt (getmtime_ms lf)))"
    using m len f d mi tr cnt by (simp add: ma mint_top)
  show ?thesis by (rule exI [of _ rs]) (rule g)
qed

text \<open>The same at two descriptors: the new file \<open>z.txt\<close> and then \<open>x.txt\<close>, whose old entry is
  reused.\<close>

theorem files_setter_mints_unmatched_entry_witness:
  "(\<exists>rs.
     map (files_step sha256_table ex_fs2 (dict_get (obj ex_task_old) ''files'' (PList [])) ex_paths2)
       [PDict ex_fd_z, PDict ex_fd_prio] = map Inr rs \<and>
     length rs = length [PDict ex_fd_z, PDict ex_fd_prio] \<and>
     map_of (obj ex_task_two) ''files'' = Some (PList (map fst rs)) \<and>
     map_of (obj ex_task_two) ''files_data'' = Some (PList (concat (map snd rs))) \<and>
     fst (rs ! 0) = mint (sha256_table (content ex_lf_z)) ex_lf_z ex_fd_z \<and>
     snd (rs ! 0) = [PTuple [PStr ''z.txt'', PStr (sha256_table (content ex_lf_z)),
                       PStr ''files/z.txt'']] \<and>
     count_list (concat (map snd rs))
         (PTuple [PStr ''z.txt'', PStr (sha256_table (content ex_lf_z)), PStr ''files/z.txt''])
       = length (filter (\<lambda>d. py_getitem d ''name'' = Inr (PStr ''z.txt''))
           [PDict ex_fd_z, PDict ex_fd_prio]) \<and>
     py_getitem (fst (rs ! 0)) ''links'' = Inl KeyError \<and>
     (\<forall>k x. map_of ex_fd_z k = Some x \<longrightarrow> entry_attr (fst (rs ! 0)) k = Inr x) \<and>
     (map_of ex_fd_z ''hashSHA256'' = None \<longrightarrow>
        entry_attr (fst (rs ! 0)) ''hashSHA256''
          = Inr (PStr (sha256_table (content ex_lf_z)))) \<and>
     (map_of ex_fd_z ''size'' = None \<longrightarrow>
        entry_attr (fst (rs ! 0)) ''size'' = Inr (PInt (getsize ex_lf_z))) \<and>
     (map_of ex_fd_z ''lastModified'' = None \<longrightarrow>
        entry_attr (fst (rs ! 0)) ''lastModified'' = Inr (PInt (getmtime_ms ex_lf_z)))) \<and>
   fst (get_data_files ex_task_two) =
     PList [PTuple [PStr ''z.txt'',
       PStr ''e3b0c44298fc1c149afbf4c8996fb92427ae41e4649b934ca495991b7852b855'',
       PStr ''files/z.txt'']] \<and>
   entry_attr (fileset ex_task_two ! 0) ''hashSHA256'' =
     Inr (PStr ''e3b0c44298fc1c149afbf4c8996fb92427ae41e4649b934ca495991b7852b855'') \<and>
   entry_attr (fileset ex_task_two ! 0) ''size'' = Inr (PInt 0) \<and>
   entry_attr (fileset ex_task_two ! 0) ''lastModified'' = Inr (PInt 1700000000001)"
proof -
  have h1: "files_setter sha256_table ex_fs2 (PList [PDict ex_fd_z, PDict ex_fd_prio]) ex_paths2
      ex_task_old = (Inr (), ex_task_two)" by code_simp
  have h2: "py_iter (PList [PDict ex_fd_z, PDict ex_fd_prio]) = Inr [PDict ex_fd_z, PDict ex_fd_prio]"
    by simp
  have h3: "0 < length [PDict ex_fd_z, PDict ex_fd_prio]" by simp
  have h4: "[PDict ex_fd_z, PDict ex_fd_prio] ! 0 = PDict ex_fd_z" by simp
  have h5: "distinct (map fst ex_fd_z)" by code_simp
  have h6: "map_of ex_fd_z ''name'' = Some (PStr ''z.txt'')" by code_simp
  have h7: "locate ex_paths2 (PStr ''z.txt'') = ''files/z.txt'' # []" by code_simp
  have h8: "ex_fs2 ''files/z.txt'' = Some ex_lf_z" by code_simp
  have h9: "py_iter (dict_get (obj ex_task_old) ''files'' (PList [])) = Inr [ex_old_entry]"
    by code_simp
  have h10: "\<forall>old \<in> set [ex_old_entry].
      \<not> same_file (PStr ''z.txt'') (sha256_table (content ex_lf_z)) old" by code_simp
  have c: "fst (get_data_files ex_task_two) =
     PList [PTuple [PStr ''z.txt'',
       PStr ''e3b0c44298fc1c149afbf4c8996fb92427ae41e4649b934ca495991b7852b855'',
       PStr ''files/z.txt'']]"
    "entry_attr (fileset ex_task_two ! 0) ''hashSHA256'' =
       Inr (PStr ''e3b0c44298fc1c149afbf4c8996fb92427ae41e4649b934ca495991b7852b855'')"
    "entry_attr (fileset ex_task_two ! 0) ''size'' = Inr (PInt 0)"
    "entry_attr (fileset ex_task_two ! 0) ''lastModified'' = Inr (PInt 1700000000001)"
    by code_simp+
  show ?thesis
    by (intro conjI c)
       (rule files_setter_mints_unmatched_entry [OF h1 h2 h3 h4 h5 h6 h7 h8 h9 h10])
qed

text \<open>
  Claim C2 as it was stated fails: a descriptor that carries a key \<open>hashSHA256\<close> passes the
  validation, and the new entry then carries the digest the descriptor gives, while the
  transfer carries the computed one.
\<close>

theorem files_setter_descriptor_hash_counterexample:
  "files_setter sha256_table ex_fs (PList [ex_desc_hash]) ex_paths (Task_init [])
     = (Inr (), ex_task_hash) \<and>
   fileset (Task_init []) = [] \<and>
   ex_fs ''files/x.txt'' = Some ex_lf \<and>
   sha256_table (content ex_lf)
     = ''ba7816bf8f01cfea414140de5dae2223b00361a396177a9cb410ff61f20015ad'' \<and>
   entry_attr (fileset ex_task_hash ! 0) ''hashSHA256'' = Inr (PStr ''0000'') \<and>
   fst (get_data_files ex_task_hash) =
     PList [PTuple [PStr ''x.txt'',
       PStr ''ba7816bf8f01cfea414140de5dae2223b00361a396177a9cb410ff61f20015ad'',
       PStr ''files/x.txt'']]"
  by code_simp


text \<open>
  Claim C3, as amended. When no descriptor has a key \<open>hashSHA256\<close> of its own, a
  replacement that returned can be run again on its own result with the same descriptors
  and the same local files: it returns, and it leaves no transfer.
\<close>

theorem files_setter_idempotent:
  assumes "files_setter H fs v fp t = (Inr (), t1)" and "py_iter v = Inr files"
    and "\<forall>d \<in> set files. keys_distinct d \<and> py_in ''hashSHA256'' d = Inr False"
  shows "\<exists>t2. files_setter H fs v fp t1 = (Inr (), t2) \<and> get_data_files t2 = (PList [], t2)"
proof -
  let ?old = "dict_get (obj t) ''files'' (PList [])"
  from files_setter_results [OF assms(1,2)] obtain rs where
    m: "map (files_step H fs ?old fp) files = map Inr rs"
    and f: "map_of (obj t1) ''files'' = Some (PList (map fst rs))" by blast
  have old1: "dict_get (obj t1) ''files'' (PList []) = PList (map fst rs)"
    using f by (simp add: dict_get_def)
  from m have "length (map (files_step H fs ?old fp) files) = length (map Inr rs)" by simp
  then have len: "length rs = length files" by simp
  have turn: "files_step H fs ?old fp (files ! j) = Inr (fst (rs ! j), snd (rs ! j))"
    if "j < length files" for j
  proof -
    from m have "map (files_step H fs ?old fp) files ! j = map Inr rs ! j" by simp
    with that len show ?thesis by simp
  qed
  have good: "\<exists>n filepath rest lf. py_getitem (files ! j) ''name'' = Inr (PStr n) \<and>
     locate fp (PStr n) = filepath # rest \<and> fs filepath = Some lf \<and>
     same_file (PStr n) (H (content lf)) (fst (rs ! j))"
    if "j < length files" for j
    using files_step_same_file [OF turn [OF that]] assms(3) that by simp
  have wf: "\<forall>x \<in> set (map fst rs).
      \<exists>a b. entry_attr x ''name'' = Inr a \<and> entry_attr x ''hashSHA256'' = Inr b"
  proof
    fix x assume "x \<in> set (map fst rs)"
    then obtain j where j: "j < length rs" and x: "x = fst (rs ! j)"
      by (auto simp: in_set_conv_nth)
    from good [of j] j len x obtain n and lf :: local_file
      where "same_file (PStr n) (H (content lf)) x" by auto
    then show "\<exists>a b. entry_attr x ''name'' = Inr a \<and> entry_attr x ''hashSHA256'' = Inr b"
      by (rule same_file_attrs)
  qed
  have again: "\<forall>d \<in> set files. \<exists>nf. files_step H fs (PList (map fst rs)) fp d = Inr (nf, [])"
  proof
    fix d assume "d \<in> set files"
    then obtain j where j: "j < length files" and d: "d = files ! j"
      by (auto simp: in_set_conv_nth)
    from good [OF j] d obtain n filepath rest lf where
      g: "py_getitem d ''name'' = Inr (PStr n)" "locate fp (PStr n) = filepath # rest"
         "fs filepath = Some lf" "same_file (PStr n) (H (content lf)) (fst (rs ! j))"
      by auto
    have v: "validate_file d = Inr ()"
      using turn [OF j] d files_step_valid by blast
    have "fst (rs ! j) \<in> set (map fst rs)" using j len by simp
    from files_step_again [where H = H and fs = fs, OF v g(1-3) wf this g(4)]
    show "\<exists>nf. files_step H fs (PList (map fst rs)) fp d = Inr (nf, [])" .
  qed
  from map_Inr_no_transfers [OF again] obtain rs' where
    m': "map (files_step H fs (PList (map fst rs)) fp) files = map Inr rs'"
    and e: "concat (map snd rs') = []" by blast
  then have "files_loop H fs (PList (map fst rs)) fp files [] []
      = Inr ([] @ map fst rs', [] @ concat (map snd rs'))"
    unfolding files_loop_Inr_iff by blast
  with e have lp: "files_loop H fs (PList (map fst rs)) fp files [] [] = Inr (map fst rs', [])"
    by simp
  define t2 where "t2 = t1\<lparr>obj := AList.update ''files_data'' (PList [])
                            (AList.update ''files'' (PList (map fst rs')) (obj t1)),
                  changed := AList.update ''files'' True (changed t1)\<rparr>"
  have s: "files_setter H fs v fp t1 = (Inr (), t2)"
    using assms(2) old1 lp by (simp add: files_setter_def t2_def)
  have "map_of (obj t2) ''files_data'' = Some (PList [])"
    by (simp add: t2_def update_conv')
  then have "get_data_files t2 = (PList [], t2)"
    by (simp add: get_data_files_def dict_get_def)
  with s show ?thesis by blast
qed

text \<open>The same at one new file, reconciled twice.\<close>

theorem files_setter_idempotent_witness:
  "\<exists>t2. files_setter sha256_table ex_fs (PList [ex_desc]) ex_paths ex_task1 = (Inr (), t2) \<and>
        get_data_files t2 = (PList [], t2)"
proof -
  have h1: "files_setter sha256_table ex_fs (PList [ex_desc]) ex_paths (Task_init [])
      = (Inr (), ex_task1)" by code_simp
  have h2: "py_iter (PList [ex_desc]) = Inr [ex_desc]" by simp
  have h3: "\<forall>d \<in> set [ex_desc]. keys_distinct d \<and> py_in ''hashSHA256'' d = Inr False"
    by code_simp
  show ?thesis by (rule files_setter_idempotent [OF h1 h2 h3])
qed

text \<open>
  Claim C3 as it was stated fails: with a descriptor that carries a key \<open>hashSHA256\<close>
  other than the digest of its file, the second run finds no entry of that name and
  digest in the result of the first, and leaves the same transfer again.
\<close>

theorem files_setter_second_run_counterexample:
  "files_setter sha256_table ex_fs (PList [ex_desc_hash]) ex_paths (Task_init [])
     = (Inr (), ex_task_hash) \<and>
   fst (files_setter sha256_table ex_fs (PList [ex_desc_hash]) ex_paths ex_task_hash) = Inr () \<and>
   fst (get_data_files
          (snd (files_setter sha256_table ex_fs (PList [ex_desc_hash]) ex_paths ex_task_hash))) =
     PList [PTuple [PStr ''x.txt'',
       PStr ''ba7816bf8f01cfea414140de5dae2223b00361a396177a9cb410ff61f20015ad'',
       PStr ''files/x.txt'']]"
  by code_simp


text \<open>
  Claim C6, as amended. The setter makes no check for names that occur twice. A
  replacement returns exactly when every descriptor on its own is reconciled without an
  exception, and then the new fileset has one entry for each descriptor, in order, with
  the name of its descriptor: two descriptors of one name give two entries of that name.
\<close>

theorem files_setter_one_entry_per_descriptor:
  assumes "py_iter v = Inr files" and "\<forall>file \<in> set files. keys_distinct file"
  shows "((\<exists>t'. files_setter H fs v fp t = (Inr (), t')) =
          (\<forall>file \<in> set files. \<exists>r.
             files_step H fs (dict_get (obj t) ''files'' (PList [])) fp file = Inr r)) \<and>
         (\<forall>t'. files_setter H fs v fp t = (Inr (), t') \<longrightarrow>
            (\<exists>newfiles. map_of (obj t') ''files'' = Some (PList newfiles) \<and>
               length newfiles = length files \<and>
               map (\<lambda>e. entry_attr e ''name'') newfiles
                 = map (\<lambda>f. py_getitem f ''name'') files))"
proof (intro conjI allI impI)
  show "(\<exists>t'. files_setter H fs v fp t = (Inr (), t')) =
          (\<forall>file \<in> set files. \<exists>r.
             files_step H fs (dict_get (obj t) ''files'' (PList [])) fp file = Inr r)"
    using assms(1) by (rule files_setter_returns_iff)
next
  fix t' assume s: "files_setter H fs v fp t = (Inr (), t')"
  let ?old = "dict_get (obj t) ''files'' (PList [])"
  from files_setter_results [OF s assms(1)] obtain rs where
    m: "map (files_step H fs ?old fp) files = map Inr rs"
    and f: "map_of (obj t') ''files'' = Some (PList (map fst rs))" by blast
  from m have "length (map (files_step H fs ?old fp) files) = length (map Inr rs)" by simp
  then have len: "length rs = length files" by simp
  have "map (\<lambda>e. entry_attr e ''name'') (map fst rs) = map (\<lambda>f. py_getitem f ''name'') files"
  proof (rule nth_equalityI)
    show "length (map (\<lambda>e. entry_attr e ''name'') (map fst rs))
        = length (map (\<lambda>f. py_getitem f ''name'') files)" using len by simp
  next
    fix i assume "i < length (map (\<lambda>e. entry_attr e ''name'') (map fst rs))"
    then have i: "i < length files" using len by simp
    from m have "map (files_step H fs ?old fp) files ! i = map Inr rs ! i" by simp
    with i len have "files_step H fs ?old fp (files ! i) = Inr (rs ! i)" by simp
    then have "files_step H fs ?old fp (files ! i) = Inr (fst (rs ! i), snd (rs ! i))" by simp
    from files_step_name [OF this] assms(2) i
    show "map (\<lambda>e. entry_attr e ''name'') (map fst rs) ! i
        = map (\<lambda>f. py_getitem f ''name'') files ! i"
      using len by simp
  qed
  with f len show "\<exists>newfiles. map_of (obj t') ''files'' = Some (PList newfiles) \<and>
               length newfiles = length files \<and>
               map (\<lambda>e. entry_attr e ''name'') newfiles
                 = map (\<lambda>f. py_getitem f ''name'') files"
    by auto
qed

text \<open>The same at two descriptors of the name \<open>x.txt\<close>.\<close>

theorem files_setter_one_entry_per_descriptor_witness:
  "(\<exists>t'. files_setter sha256_table ex_fs (PList [ex_desc, ex_desc_again]) ex_paths (Task_init [])
          = (Inr (), t')) \<and>
   (\<exists>newfiles. map_of (obj ex_task_dup) ''files'' = Some (PList newfiles) \<and>
      length newfiles = length [ex_desc, ex_desc_again] \<and>
      map (\<lambda>e. entry_attr e ''name'') newfiles
        = map (\<lambda>f. py_getitem f ''name'') [ex_desc, ex_desc_again])"
proof -
  have h1: "py_iter (PList [ex_desc, ex_desc_again]) = Inr [ex_desc, ex_desc_again]" by simp
  have h2: "\<forall>file \<in> set [ex_desc, ex_desc_again]. keys_distinct file" by code_simp
  have s: "files_setter sha256_table ex_fs (PList [ex_desc, ex_desc_again]) ex_paths (Task_init [])
     = (Inr (), ex_task_dup)" by code_simp
  from files_setter_one_entry_per_descriptor [OF h1 h2, of sha256_table ex_fs ex_paths "Task_init []"] s
  show ?thesis by blast
qed

text \<open>
  Claim C6 as it was stated fails: two descriptors of the name \<open>x.txt\<close>, backed by the same
  local file, are reconciled without an exception, and the new fileset holds two entries
  of that name.
\<close>

theorem files_setter_duplicate_names_counterexample:
  "files_setter sha256_table ex_fs (PList [ex_desc, ex_desc_again]) ex_paths (Task_init [])
     = (Inr (), ex_task_dup) \<and>
   py_getitem ex_desc ''name'' = Inr (PStr ''x.txt'') \<and>
   py_getitem ex_desc_again ''name'' = Inr (PStr ''x.txt'') \<and>
   length (fileset ex_task_dup) = 2 \<and>
   entry_attr (fileset ex_task_dup ! 0) ''name'' = Inr (PStr ''x.txt'') \<and>
   entry_attr (fileset ex_task_dup ! 1) ''name'' = Inr (PStr ''x.txt'')"
  by code_simp

end
